theory Spec2Isabelle
  imports
    Complex_Main
    "HOL-Library.Char_ord"
    "HOL-Library.List_Lexorder"
    "HOL-Library.Product_Lexorder"
    "HOL-Library.Multiset"
begin

section \<open>The funding-rounds dashboard (\<^verbatim>\<open>data_app.py\<close>)\<close>

text \<open>
  The script loads one table of funding rounds and derives six aggregated tables from it.
  A table (a pandas DataFrame) is a list of rows in row order; a grouped result (a pandas
  Series or a two-column frame indexed by the group key) is an association list in the
  order pandas produces.  Money is kept in exact rationals: the script works with
  double-precision floats, so every equation about sums below is the exact-arithmetic
  reading of what the script computes up to rounding.
\<close>

subsection \<open>Rows\<close>

text \<open>
  One row of the frame returned by \<^verbatim>\<open>load_data\<close>, restricted to the five columns
  the script reads.  After \<^verbatim>\<open>fillna('')\<close> the two text columns hold strings only;
  the organization name, the money and the investor count are taken to be present in
  every row.  A string is the list of its UTF-8 bytes, whose lexicographic order is
  Python's order of strings.
\<close>

record funding_round =
  organization_name :: string
  organization_industries :: string
  investor_names :: string
  money_raised :: rat
  investor_count_computed :: int

type_synonym frame = "funding_round list"

text \<open>
  Rows of \<^verbatim>\<open>df_money\<close>: the columns above and the added column
  \<^verbatim>\<open>money_per_investor\<close>.  A cell is \<open>None\<close> when the float is not finite.
\<close>

record money_round = funding_round +
  money_per_investor :: "rat option"

subsection \<open>Strings\<close>

text \<open>
  \<^verbatim>\<open>s.split(sep)\<close> for a non-empty separator: the pieces between the
  non-overlapping occurrences of \<open>sep\<close>, scanned from the left.  The script only ever
  passes \<^verbatim>\<open>', '\<close>; Python rejects an empty separator, and for one the model
  never cuts.
\<close>

fun str_split :: "string \<Rightarrow> string \<Rightarrow> string list" where
  "str_split sep [] = [[]]"
| "str_split sep (c # cs) =
     (if sep \<noteq> [] \<and> take (length sep) (c # cs) = sep
      then [] # str_split sep (drop (length sep) (c # cs))
      else (case str_split sep cs of
              [] \<Rightarrow> [[c]]
            | p # ps \<Rightarrow> (c # p) # ps))"

text \<open>\<^verbatim>\<open>sep.join(parts)\<close>.\<close>

fun str_join :: "string \<Rightarrow> string list \<Rightarrow> string" where
  "str_join sep [] = []"
| "str_join sep [p] = p"
| "str_join sep (p # q # ps) = p @ sep @ str_join sep (q # ps)"

text \<open>
  The whitespace of \<^verbatim>\<open>str.strip()\<close>: the code points for which Python's
  \<^verbatim>\<open>str.isspace\<close> holds, each as its UTF-8 bytes.  They are U+0009 to U+000D,
  U+001C to U+0020, U+0085, U+00A0, U+1680, U+2000 to U+200A, U+2028, U+2029, U+202F,
  U+205F and U+3000.
\<close>

definition whitespace :: "string list" where
  "whitespace =
     [[CHR 0x09], [CHR 0x0A], [CHR 0x0B], [CHR 0x0C], [CHR 0x0D],
      [CHR 0x1C], [CHR 0x1D], [CHR 0x1E], [CHR 0x1F], [CHR 0x20],
      [CHR 0xC2, CHR 0x85], [CHR 0xC2, CHR 0xA0],
      [CHR 0xE1, CHR 0x9A, CHR 0x80],
      [CHR 0xE2, CHR 0x80, CHR 0x80], [CHR 0xE2, CHR 0x80, CHR 0x81],
      [CHR 0xE2, CHR 0x80, CHR 0x82], [CHR 0xE2, CHR 0x80, CHR 0x83],
      [CHR 0xE2, CHR 0x80, CHR 0x84], [CHR 0xE2, CHR 0x80, CHR 0x85],
      [CHR 0xE2, CHR 0x80, CHR 0x86], [CHR 0xE2, CHR 0x80, CHR 0x87],
      [CHR 0xE2, CHR 0x80, CHR 0x88], [CHR 0xE2, CHR 0x80, CHR 0x89],
      [CHR 0xE2, CHR 0x80, CHR 0x8A],
      [CHR 0xE2, CHR 0x80, CHR 0xA8], [CHR 0xE2, CHR 0x80, CHR 0xA9],
      [CHR 0xE2, CHR 0x80, CHR 0xAF], [CHR 0xE2, CHR 0x81, CHR 0x9F],
      [CHR 0xE3, CHR 0x80, CHR 0x80]]"

text \<open>
  Stripping on one side: as long as the string begins with one of the given byte
  sequences, that sequence is removed.  UTF-8 is prefix-free and self-synchronising, so on
  the bytes of a string this removes whole code points, from the left and (on the
  reversed string, with the sequences reversed) from the right.
\<close>

function lstrip_of :: "string list \<Rightarrow> string \<Rightarrow> string" where
  "lstrip_of ws s =
     (case find (\<lambda>w. w \<noteq> [] \<and> take (length w) s = w) ws of
        None \<Rightarrow> s
      | Some w \<Rightarrow> lstrip_of ws (drop (length w) s))"
  by pat_completeness auto
termination
proof (relation "measure (\<lambda>(ws, s). length s)")
  show "wf (measure (\<lambda>(ws, s). length s))" by simp
next
  fix ws :: "string list" and s w :: string
  assume "find (\<lambda>w. w \<noteq> [] \<and> take (length w) s = w) ws = Some w"
  then have w: "w \<noteq> []" and t: "take (length w) s = w"
    by (auto simp: find_Some_iff)
  from t have "length w \<le> length s"
    by (metis length_take min.cobounded1)
  with w show "((ws, drop (length w) s), (ws, s)) \<in> measure (\<lambda>(ws, s). length s)"
    by (cases w) auto
qed

declare lstrip_of.simps [simp del]

text \<open>\<^verbatim>\<open>s.strip()\<close>: leading and trailing whitespace removed.\<close>

definition strip :: "string \<Rightarrow> string" where
  "strip s = rev (lstrip_of (map rev whitespace) (rev (lstrip_of whitespace s)))"

abbreviation comma_space :: string where
  "comma_space \<equiv> '', ''"

subsection \<open>Table operations of pandas\<close>

text \<open>
  \<^verbatim>\<open>df.assign(col=df[col].str.split(', ')).explode(col)\<close>: every row is replaced,
  in place, by one row per piece of its cell, the other cells copied.  \<open>get\<close> reads the
  column and \<open>put\<close> writes it.
\<close>

definition explode_col :: "('r \<Rightarrow> string) \<Rightarrow> (string \<Rightarrow> 'r \<Rightarrow> 'r) \<Rightarrow> 'r list \<Rightarrow> 'r list" where
  "explode_col get put df =
     concat (map (\<lambda>r. map (\<lambda>v. put v r) (str_split comma_space (get r))) df)"

text \<open>
  \<^verbatim>\<open>df.groupby(key)[col].agg()\<close>: one entry per distinct key, keys ascending
  (\<^verbatim>\<open>sort=True\<close> is the default), each group holding its rows in row order.
\<close>

definition group_keys :: "('r \<Rightarrow> 'k::linorder) \<Rightarrow> 'r list \<Rightarrow> 'k list" where
  "group_keys key df = sort (remdups (map key df))"

definition groupby :: "('r \<Rightarrow> 'k::linorder) \<Rightarrow> ('r list \<Rightarrow> 'v) \<Rightarrow> 'r list \<Rightarrow> ('k \<times> 'v) list" where
  "groupby key agg df = map (\<lambda>k. (k, agg (filter (\<lambda>r. key r = k) df))) (group_keys key df)"

text \<open>The aggregations the script uses, each on the rows of one group.\<close>

definition count_org :: "('a funding_round_scheme) list \<Rightarrow> nat" where
  "count_org g = length (map organization_name g)"

definition nunique_org :: "('a funding_round_scheme) list \<Rightarrow> nat" where
  "nunique_org g = length (remdups (map organization_name g))"

definition sum_money :: "('a funding_round_scheme) list \<Rightarrow> rat" where
  "sum_money g = sum_list (map money_raised g)"

text \<open>
  The sum of a column of floats that may hold non-finite cells.  With finite cells only
  it is their sum; a non-finite cell never reaches it in this script
  (\<open>money_per_investor\<close> below is always finite), and the model answers \<open>None\<close> for one.
\<close>

fun sum_cells :: "rat option list \<Rightarrow> rat option" where
  "sum_cells [] = Some 0"
| "sum_cells (c # cs) =
     (case (c, sum_cells cs) of
        (Some x, Some y) \<Rightarrow> Some (x + y)
      | _ \<Rightarrow> None)"

definition sum_money_per_investor :: "money_round list \<Rightarrow> rat option" where
  "sum_money_per_investor g = sum_cells (map money_per_investor g)"

text \<open>
  \<^verbatim>\<open>sort_values(ascending=False)\<close> hands the values to numpy's \<^verbatim>\<open>argsort\<close>
  with the default \<^verbatim>\<open>kind='quicksort'\<close>, which promises nothing on the order of
  equal values.  The sort is therefore a parameter \<open>srt\<close> of every analysis that ranks;
  what is known of it is \<open>sorts_desc\<close>: it returns the entries it is given, rearranged in
  descending order of value.
\<close>

definition sorts_desc :: "(('k \<times> 'v::linorder) list \<Rightarrow> ('k \<times> 'v) list) \<Rightarrow> bool" where
  "sorts_desc srt \<longleftrightarrow>
     (\<forall>s. mset (srt s) = mset s \<and> sorted_wrt (\<lambda>a b. snd b \<le> snd a) (srt s))"

text \<open>
  One such sort, used to run the analyses on example tables: pandas reverses the entries,
  sorts them ascending and reverses the result; here the ascending sort is stable, so
  equal values keep the order they had.
\<close>

definition sort_values_stable :: "('k \<times> 'v::linorder) list \<Rightarrow> ('k \<times> 'v) list" where
  "sort_values_stable s = rev (sort_key snd (rev s))"

text \<open>The two uses of the sort: on counts of organizations or deals, and on sums of money.\<close>

type_synonym count_sort = "(string \<times> nat) list \<Rightarrow> (string \<times> nat) list"

type_synonym money_sort = "(string \<times> rat) list \<Rightarrow> (string \<times> rat) list"

text \<open>\<^verbatim>\<open>.head(n)\<close> is \<open>take n\<close>, \<^verbatim>\<open>.iloc[n:]\<close> is \<open>drop n\<close>,
  \<^verbatim>\<open>.index\<close> of a grouped result is \<open>map fst\<close>, and \<^verbatim>\<open>col.isin(idx)\<close>
  is membership in the list.\<close>

definition isin :: "'a \<Rightarrow> 'a list \<Rightarrow> bool" where
  "isin x xs \<longleftrightarrow> x \<in> set xs"

subsection \<open>Preprocessing\<close>

definition df_industry :: "frame \<Rightarrow> frame" where
  "df_industry df =
     explode_col organization_industries (\<lambda>v r. r\<lparr>organization_industries := v\<rparr>) df"

definition df_investor :: "frame \<Rightarrow> frame" where
  "df_investor df =
     explode_col investor_names (\<lambda>v r. r\<lparr>investor_names := v\<rparr>) (df_industry df)"

subsection \<open>Analysis 1: number of deals by industry\<close>

definition deals_by_industry :: "count_sort \<Rightarrow> frame \<Rightarrow> (string \<times> nat) list" where
  "deals_by_industry srt df =
     take 10 (srt
       (groupby organization_industries count_org
          (filter (\<lambda>r. organization_industries r \<noteq> '''') (df_industry df))))"

subsection \<open>Analysis 2: money invested by industry\<close>

definition funding_by_industry :: "money_sort \<Rightarrow> frame \<Rightarrow> (string \<times> rat) list" where
  "funding_by_industry srt df =
     srt (groupby organization_industries sum_money (df_industry df))"

definition TOP_N :: nat where
  "TOP_N = 80"

definition top_industries_funding :: "money_sort \<Rightarrow> frame \<Rightarrow> (string \<times> rat) list" where
  "top_industries_funding srt df = take TOP_N (funding_by_industry srt df)"

definition other_industries :: "money_sort \<Rightarrow> frame \<Rightarrow> (string \<times> rat) list" where
  "other_industries srt df = drop TOP_N (funding_by_industry srt df)"

text \<open>The one-row frame \<^verbatim>\<open>other_row\<close>, as its row.\<close>

definition other_row :: "money_sort \<Rightarrow> frame \<Rightarrow> string \<times> rat" where
  "other_row srt df = (''Other'', sum_list (map snd (other_industries srt df)))"

definition funding_treemap_df :: "money_sort \<Rightarrow> frame \<Rightarrow> (string \<times> rat) list" where
  "funding_treemap_df srt df = top_industries_funding srt df @ [other_row srt df]"

subsection \<open>Analysis 3: industry-wise deals by the top 5 investors\<close>

text \<open>\<^verbatim>\<open>Series.replace('Not Mentioned', '')\<close> replaces a cell that is equal to the
  marker as a whole; it does not look inside the cell.\<close>

definition replace_not_mentioned :: "string \<Rightarrow> string" where
  "replace_not_mentioned s = (if s = ''Not Mentioned'' then '''' else s)"

definition df_exp :: "frame \<Rightarrow> frame" where
  "df_exp df =
     filter (\<lambda>r. strip (investor_names r) \<noteq> '''')
       (explode_col investor_names (\<lambda>v r. r\<lparr>investor_names := v\<rparr>)
          (explode_col organization_industries (\<lambda>v r. r\<lparr>organization_industries := v\<rparr>)
             (map (\<lambda>r. r\<lparr>investor_names := replace_not_mentioned (investor_names r)\<rparr>) df)))"

definition TOP_INVESTORS :: nat where
  "TOP_INVESTORS = 5"

definition TOP_INDUSTRIES :: nat where
  "TOP_INDUSTRIES = 10"

definition top_investors :: "count_sort \<Rightarrow> frame \<Rightarrow> string list" where
  "top_investors srt df =
     map fst (take TOP_INVESTORS (srt (groupby investor_names nunique_org (df_exp df))))"

definition top_industries :: "count_sort \<Rightarrow> frame \<Rightarrow> string list" where
  "top_industries srt df =
     map fst (take TOP_INDUSTRIES
       (srt (groupby organization_industries nunique_org (df_exp df))))"

definition df_top :: "count_sort \<Rightarrow> frame \<Rightarrow> frame" where
  "df_top srt df =
     filter (\<lambda>r. isin (organization_industries r) (top_industries srt df))
       (filter (\<lambda>r. isin (investor_names r) (top_investors srt df)) (df_exp df))"

definition inv_ind_deals :: "count_sort \<Rightarrow> frame \<Rightarrow> ((string \<times> string) \<times> nat) list" where
  "inv_ind_deals srt df =
     groupby (\<lambda>r. (investor_names r, organization_industries r)) nunique_org (df_top srt df)"

subsection \<open>Analysis 4: money invested by the top 5 investors\<close>

text \<open>\<^verbatim>\<open>Series.replace(0, 1)\<close> on the divisor column.\<close>

definition replace_0_1 :: "int \<Rightarrow> int" where
  "replace_0_1 n = (if n = 0 then 1 else n)"

text \<open>Float division of a column by a column: it never raises, and a zero divisor gives
  an infinity or a NaN, here \<open>None\<close>.\<close>

definition truediv :: "rat \<Rightarrow> int \<Rightarrow> rat option" where
  "truediv m n = (if n = 0 then None else Some (m / of_int n))"

definition with_money_per_investor :: "funding_round \<Rightarrow> money_round" where
  "with_money_per_investor r =
     funding_round.extend r
       (money_round.fields (truediv (money_raised r) (replace_0_1 (investor_count_computed r))))"

text \<open>\<^verbatim>\<open>df_money\<close> right after the new column is added, before line 187 filters it.\<close>

definition df_money_all :: "frame \<Rightarrow> money_round list" where
  "df_money_all df = map with_money_per_investor (df_exp df)"

definition df_money :: "count_sort \<Rightarrow> frame \<Rightarrow> money_round list" where
  "df_money srt df =
     filter (\<lambda>r. isin (investor_names r) (top_investors srt df)
                \<and> isin (organization_industries r) (top_industries srt df))
       (df_money_all df)"

definition inv_ind_money :: "count_sort \<Rightarrow> frame \<Rightarrow> ((string \<times> string) \<times> rat option) list" where
  "inv_ind_money srt df =
     groupby (\<lambda>r. (investor_names r, organization_industries r)) sum_money_per_investor
       (df_money srt df)"

subsection \<open>Analysis 5: top investors, Y Combinator excluded\<close>

definition EXCLUDED_INVESTORS :: "string list" where
  "EXCLUDED_INVESTORS = [''Y Combinator'']"

text \<open>The script assigns \<^verbatim>\<open>df_money_filtered\<close> twice; \<open>df_money_excluded\<close> is its
  first value (line 222) and \<open>df_money_filtered\<close> its second (line 233).\<close>

definition df_money_excluded :: "count_sort \<Rightarrow> frame \<Rightarrow> money_round list" where
  "df_money_excluded srt df =
     filter (\<lambda>r. \<not> isin (investor_names r) EXCLUDED_INVESTORS) (df_money srt df)"

definition top_investors_no_yc :: "count_sort \<Rightarrow> frame \<Rightarrow> string list" where
  "top_investors_no_yc srt df =
     map fst (take TOP_INVESTORS
       (srt (groupby investor_names nunique_org (df_money_excluded srt df))))"

definition df_money_filtered :: "count_sort \<Rightarrow> frame \<Rightarrow> money_round list" where
  "df_money_filtered srt df =
     filter (\<lambda>r. isin (investor_names r) (top_investors_no_yc srt df))
       (df_money_excluded srt df)"

definition inv_ind_money_no_yc :: "count_sort \<Rightarrow> frame \<Rightarrow> ((string \<times> string) \<times> rat option) list" where
  "inv_ind_money_no_yc srt df =
     groupby (\<lambda>r. (investor_names r, organization_industries r)) sum_money_per_investor
       (df_money_filtered srt df)"

subsection \<open>Analysis 6: average funding per deal by industry\<close>

definition top_industries_t6 :: "count_sort \<Rightarrow> frame \<Rightarrow> string list" where
  "top_industries_t6 srt df =
     map fst (take TOP_INDUSTRIES
       (srt
          (groupby organization_industries nunique_org
             (filter (\<lambda>r. organization_industries r \<noteq> '''') (df_industry df)))))"

subsection \<open>Quantities the properties speak of\<close>

text \<open>The split cells of a deal, as \<^verbatim>\<open>df_exp\<close> assigns them before it explodes:
  the industries listed and the investors listed.\<close>

definition listed_industries :: "funding_round \<Rightarrow> string list" where
  "listed_industries r = str_split comma_space (organization_industries r)"

definition listed_investors :: "funding_round \<Rightarrow> string list" where
  "listed_investors r = str_split comma_space (replace_not_mentioned (investor_names r))"

text \<open>The number line 186 computes for a row: its money over its investor count, a zero
  count taken as 1.\<close>

definition share_of :: "'a funding_round_scheme \<Rightarrow> rat" where
  "share_of e = money_raised e / of_int (replace_0_1 (investor_count_computed e))"

text \<open>
  The rows of \<^verbatim>\<open>df_money\<close> that come from one deal \<open>r\<close> of the table \<open>df\<close>.
  The explode and the new column work deal by deal, and line 187 keeps of the deal's rows
  those whose investor and industry are in the rankings of the whole table.
\<close>

definition df_money_of :: "count_sort \<Rightarrow> frame \<Rightarrow> funding_round \<Rightarrow> money_round list" where
  "df_money_of srt df r =
     filter (\<lambda>e. isin (investor_names e) (top_investors srt df)
                \<and> isin (organization_industries e) (top_industries srt df))
       (df_money_all [r])"

text \<open>The rows of the deal that analysis 5 keeps: Y Combinator removed (line 222), then the
  investors of the recomputed ranking kept (line 233).\<close>

definition df_money_filtered_of :: "count_sort \<Rightarrow> frame \<Rightarrow> funding_round \<Rightarrow> money_round list" where
  "df_money_filtered_of srt df r =
     filter (\<lambda>e. isin (investor_names e) (top_investors_no_yc srt df))
       (filter (\<lambda>e. \<not> isin (investor_names e) EXCLUDED_INVESTORS) (df_money_of srt df r))"

text \<open>An investor's total over a grouped output: the sum of the entries under that
  investor, over all industries.\<close>

definition investor_total :: "((string \<times> string) \<times> rat option) list \<Rightarrow> string \<Rightarrow> rat option" where
  "investor_total out v = sum_cells (map snd (filter (\<lambda>kv. fst (fst kv) = v) out))"

subsection \<open>Operations as the specification words them\<close>

text \<open>
  The ranking of analysis 5 as the specification has it: Y Combinator is removed from the
  whole expanded table \<^verbatim>\<open>df_exp\<close> and the five investors with the most distinct
  organizations are taken from what remains.
\<close>

definition top_investors_no_yc_remainder :: "count_sort \<Rightarrow> frame \<Rightarrow> string list" where
  "top_investors_no_yc_remainder srt df =
     map fst (take TOP_INVESTORS
       (srt
          (groupby investor_names nunique_org
             (filter (\<lambda>r. \<not> isin (investor_names r) EXCLUDED_INVESTORS) (df_exp df)))))"

text \<open>
  The ranking of analysis 1 with ties broken in first-seen order: the groups are taken in
  the order in which their industry first appears in the table, and the sort by count is
  the stable one, which keeps that order among equal counts.
\<close>

definition first_seen_keys :: "('r \<Rightarrow> 'k) \<Rightarrow> 'r list \<Rightarrow> 'k list" where
  "first_seen_keys key df = rev (remdups (rev (map key df)))"

definition deals_by_industry_first_seen :: "frame \<Rightarrow> (string \<times> nat) list" where
  "deals_by_industry_first_seen df =
     (let rows = filter (\<lambda>r. organization_industries r \<noteq> '''') (df_industry df)
      in take 10 (sort_values_stable
           (map (\<lambda>k. (k, count_org (filter (\<lambda>r. organization_industries r = k) rows)))
              (first_seen_keys organization_industries rows))))"

text \<open>
  Modelled from the spec: the collapse of an exploded table, which the script does not
  have.  It follows the wording of the specification's round-trip property: group the
  industry-exploded table on \<^verbatim>\<open>organization_name\<close> and join each group's industry
  values with the delimiter.
\<close>

definition collapse_industries :: "frame \<Rightarrow> (string \<times> string) list" where
  "collapse_industries ex =
     groupby organization_name (\<lambda>g. str_join comma_space (map organization_industries g)) ex"

subsection \<open>Example tables\<close>

text \<open>The two deals of the specification's scenario.\<close>

definition deal_A :: funding_round where
  "deal_A = \<lparr>organization_name = ''A'', organization_industries = ''AI, Software'',
     investor_names = ''X'', money_raised = 100, investor_count_computed = 1\<rparr>"

definition deal_B :: funding_round where
  "deal_B = \<lparr>organization_name = ''B'', organization_industries = ''AI'',
     investor_names = ''X, Y'', money_raised = 200, investor_count_computed = 2\<rparr>"

text \<open>A deal whose investor count is recorded as zero.\<close>

definition deal_zero_count :: funding_round where
  "deal_zero_count = \<lparr>organization_name = ''A'', organization_industries = ''AI'',
     investor_names = ''X'', money_raised = 100, investor_count_computed = 0\<rparr>"

text \<open>A deal with an investor and no industry listed.\<close>

definition deal_no_industry :: funding_round where
  "deal_no_industry = \<lparr>organization_name = ''A'', organization_industries = '''',
     investor_names = ''X'', money_raised = 100, investor_count_computed = 1\<rparr>"

text \<open>Three deals with six investors: Y Combinator in three of them, four investors
  in two, and \<open>E\<close> in one.\<close>

definition deal_of :: "string \<Rightarrow> string \<Rightarrow> int \<Rightarrow> funding_round" where
  "deal_of org investors n = \<lparr>organization_name = org, organization_industries = ''AI'',
     investor_names = investors, money_raised = 100, investor_count_computed = n\<rparr>"

definition six_investors :: frame where
  "six_investors =
     [deal_of ''o1'' ''Y Combinator, A, B, C, D'' 5,
      deal_of ''o2'' ''Y Combinator, A, B, C, D'' 5,
      deal_of ''o3'' ''Y Combinator, E'' 2]"

text \<open>A deal that lists the marker \<^verbatim>\<open>Not Mentioned\<close> beside a named investor, and a
  deal whose investors are the marker alone.\<close>

definition deal_marker_in_list :: funding_round where
  "deal_marker_in_list = \<lparr>organization_name = ''A'', organization_industries = ''AI'',
     investor_names = ''X, Not Mentioned'', money_raised = 100, investor_count_computed = 2\<rparr>"

definition deal_marker_only :: funding_round where
  "deal_marker_only = \<lparr>organization_name = ''B'', organization_industries = ''AI'',
     investor_names = ''Not Mentioned'', money_raised = 50, investor_count_computed = 0\<rparr>"

text \<open>Two funding rounds of the same organization.\<close>

definition two_rounds :: frame where
  "two_rounds =
     [\<lparr>organization_name = ''A'', organization_industries = ''AI'',
        investor_names = ''X'', money_raised = 100, investor_count_computed = 1\<rparr>,
      \<lparr>organization_name = ''A'', organization_industries = ''Software'',
        investor_names = ''Y'', money_raised = 200, investor_count_computed = 1\<rparr>]"

text \<open>A table in which \<^verbatim>\<open>Software\<close> is seen before \<^verbatim>\<open>AI\<close>, one deal each.\<close>

definition software_first :: frame where
  "software_first =
     [\<lparr>organization_name = ''A'', organization_industries = ''Software'',
        investor_names = ''X'', money_raised = 100, investor_count_computed = 1\<rparr>,
      \<lparr>organization_name = ''B'', organization_industries = ''AI'',
        investor_names = ''Y'', money_raised = 200, investor_count_computed = 1\<rparr>]"

text \<open>A deal that lists a no-break space (U+00A0) beside a named investor.\<close>

definition deal_nbsp :: funding_round where
  "deal_nbsp = \<lparr>organization_name = ''A'', organization_industries = ''AI'',
     investor_names = ''X, '' @ [CHR 0xC2, CHR 0xA0], money_raised = 100,
     investor_count_computed = 2\<rparr>"

text \<open>The deal of the six-investor table that lists Y Combinator and \<open>E\<close>.\<close>

definition deal_o3 :: funding_round where
  "deal_o3 = deal_of ''o3'' ''Y Combinator, E'' 2"

text \<open>A deal with no industry listed, followed by a deal in one industry.\<close>

definition no_industry_table :: frame where
  "no_industry_table = [deal_no_industry, deal_B]"

section \<open>Properties\<close>

subsection \<open>Sorting, grouping and ranking\<close>

lemma sorts_desc_mset: "sorts_desc srt \<Longrightarrow> mset (srt s) = mset s"
  by (simp add: sorts_desc_def)

lemma sorts_desc_set: "sorts_desc srt \<Longrightarrow> set (srt s) = set s"
  by (rule mset_eq_setD) (rule sorts_desc_mset)

lemma sorts_desc_length: "sorts_desc srt \<Longrightarrow> length (srt s) = length s"
  by (rule mset_eq_length) (rule sorts_desc_mset)

lemma sorts_desc_sorted: "sorts_desc srt \<Longrightarrow> sorted_wrt (\<lambda>a b. snd b \<le> snd a) (srt s)"
  by (simp add: sorts_desc_def)

text \<open>The stable sort is one of the sorts the analyses may be run with.\<close>

lemma sorts_desc_stable:
  "sorts_desc (sort_values_stable :: ('k \<times> 'v::linorder) list \<Rightarrow> ('k \<times> 'v) list)"
proof -
  have "sorted_wrt (\<lambda>a b. snd b \<le> snd a) (sort_values_stable s)"
    for s :: "('k \<times> 'v::linorder) list"
  proof -
    have "sorted (map snd (sort_key snd (rev s)))"
      by (rule sorted_sort_key)
    then have "sorted_wrt (\<lambda>a b. snd a \<le> snd b) (sort_key snd (rev s))"
      by (simp only: sorted_map)
    then show ?thesis
      by (simp only: sort_values_stable_def sorted_wrt_rev)
  qed
  moreover have "mset (sort_values_stable s) = mset s" for s :: "('k \<times> 'v) list"
    by (simp add: sort_values_stable_def)
  ultimately show ?thesis
    unfolding sorts_desc_def by blast
qed

lemma set_group_keys: "set (group_keys key df) = key ` set df"
  by (simp add: group_keys_def)

lemma distinct_group_keys: "distinct (group_keys key df)"
  by (simp add: group_keys_def)

lemma sorted_group_keys: "sorted (group_keys key df)"
  by (simp add: group_keys_def)

lemma map_fst_groupby: "map fst (groupby key agg df) = group_keys key df"
  by (simp add: groupby_def comp_def)

text \<open>A ranking cut to its first \<open>n\<close> entries names only keys that occur in the table.\<close>

lemma top_keys_subset:
  assumes "sorts_desc srt"
  shows "set (map fst (take n (srt (groupby key agg df)))) \<subseteq> key ` set df"
proof -
  have "set (take n (srt (groupby key agg df))) \<subseteq> set (groupby key agg df)"
    using set_take_subset [of n "srt (groupby key agg df)"]
    by (simp only: sorts_desc_set [OF assms])
  then have "fst ` set (take n (srt (groupby key agg df)))
      \<subseteq> fst ` set (groupby key agg df)"
    by (rule image_mono)
  also have "fst ` set (groupby key agg df) = set (map fst (groupby key agg df))"
    by simp
  also have "\<dots> = key ` set df"
    by (simp only: map_fst_groupby set_group_keys)
  finally show ?thesis by simp
qed

text \<open>A ranking that is not longer than the cut names every key of the table.\<close>

lemma top_keys_all:
  assumes "sorts_desc srt" and "length (group_keys key df) \<le> n"
  shows "set (map fst (take n (srt (groupby key agg df)))) = key ` set df"
proof -
  have "length (srt (groupby key agg df)) \<le> n"
    using assms(2) by (simp add: sorts_desc_length [OF assms(1)] groupby_def)
  then have "take n (srt (groupby key agg df)) = srt (groupby key agg df)"
    by simp
  then have "set (map fst (take n (srt (groupby key agg df))))
      = fst ` set (srt (groupby key agg df))"
    by simp
  also have "\<dots> = set (map fst (groupby key agg df))"
    by (simp only: sorts_desc_set [OF assms(1)] set_map)
  also have "\<dots> = key ` set df"
    by (simp only: map_fst_groupby set_group_keys)
  finally show ?thesis .
qed

subsection \<open>Stripping\<close>

lemma lstrip_of_Nil: "lstrip_of ws [] = []"
  by (subst lstrip_of.simps) (simp add: find_None_iff [THEN iffD2])

lemma strip_empty: "strip '''' = ''''"
  by (simp add: strip_def lstrip_of_Nil)

text \<open>A name that is a no-break space alone is blank; the marker is not.\<close>

lemma strip_examples:
  "strip [CHR 0xC2, CHR 0xA0] = ''''"
  "strip ''  X '' = ''X''"
  "strip ''Not Mentioned'' = ''Not Mentioned''"
  by code_simp+

subsection \<open>The money-per-investor column\<close>

lemma replace_0_1_nonzero: "replace_0_1 n \<noteq> 0"
  by (simp add: replace_0_1_def)

lemma money_per_investor_with:
  "money_per_investor (with_money_per_investor r)
     = Some (money_raised r / of_int (replace_0_1 (investor_count_computed r)))"
  by (simp add: with_money_per_investor_def truediv_def replace_0_1_nonzero
      funding_round.extend_def money_round.fields_def)

lemma with_money_per_investor_cols:
  "organization_name (with_money_per_investor r) = organization_name r"
  "organization_industries (with_money_per_investor r) = organization_industries r"
  "investor_names (with_money_per_investor r) = investor_names r"
  "money_raised (with_money_per_investor r) = money_raised r"
  "investor_count_computed (with_money_per_investor r) = investor_count_computed r"
  by (simp_all add: with_money_per_investor_def funding_round.extend_def)

text \<open>
  C6.  A row of \<^verbatim>\<open>df_money\<close> whose \<^verbatim>\<open>investor_count_computed\<close> is 0 is divided
  by 1 instead: its \<^verbatim>\<open>money_per_investor\<close> is a finite number, the row's whole
  \<^verbatim>\<open>money_raised\<close>, and no infinity, NaN or error arises.
\<close>

theorem zero_count_attributes_full_money:
  assumes "e \<in> set (df_money_all df)" and "investor_count_computed e = 0"
  shows "money_per_investor e = Some (money_raised e)"
proof -
  from assms(1) obtain r where r: "e = with_money_per_investor r"
    by (auto simp: df_money_all_def)
  with assms(2) have "investor_count_computed r = 0"
    by (simp add: with_money_per_investor_cols)
  then show ?thesis
    by (simp add: r money_per_investor_with with_money_per_investor_cols replace_0_1_def)
qed

theorem zero_count_attributes_full_money_witness:
  "with_money_per_investor deal_zero_count \<in> set (df_money_all [deal_zero_count])
   \<and> investor_count_computed (with_money_per_investor deal_zero_count) = 0
   \<and> money_per_investor (with_money_per_investor deal_zero_count) = Some 100"
proof -
  have x: "strip ''X'' \<noteq> ''''"
    by code_simp
  have m: "with_money_per_investor deal_zero_count \<in> set (df_money_all [deal_zero_count])"
    by (simp add: df_money_all_def df_exp_def explode_col_def deal_zero_count_def
        replace_not_mentioned_def x)
  have z: "investor_count_computed (with_money_per_investor deal_zero_count) = 0"
    by (simp add: with_money_per_investor_cols deal_zero_count_def)
  from zero_count_attributes_full_money [OF m z] m z show ?thesis
    by (simp add: with_money_per_investor_cols deal_zero_count_def)
qed

subsection \<open>The example tables, evaluated\<close>

text \<open>
  The expanded table and the two rankings of the example tables, computed once.  The
  rankings are those of the stable sort; where no two counts tie at the cut, every sort
  gives the same set.
\<close>

lemma df_exp_scenario:
  "df_exp [deal_A, deal_B] =
     [deal_A\<lparr>organization_industries := ''AI''\<rparr>,
      deal_A\<lparr>organization_industries := ''Software''\<rparr>,
      deal_B\<lparr>investor_names := ''X''\<rparr>, deal_B\<lparr>investor_names := ''Y''\<rparr>]"
  by code_simp

lemma top_investors_scenario: "top_investors sort_values_stable [deal_A, deal_B] = [''X'', ''Y'']"
  unfolding top_investors_def df_exp_scenario by code_simp

lemma top_industries_scenario:
  "top_industries sort_values_stable [deal_A, deal_B] = [''AI'', ''Software'']"
  unfolding top_industries_def df_exp_scenario by code_simp

lemmas scenario_eval = df_money_def df_money_all_def df_exp_scenario top_investors_scenario
  top_industries_scenario

text \<open>The scenario of the specification: two deals, \<open>A\<close> in two industries with one
  investor and \<open>B\<close> in one industry with two investors.\<close>

lemma specification_scenario:
  "map organization_industries (df_industry [deal_A, deal_B]) = [''AI'', ''Software'', ''AI'']"
  "deals_by_industry sort_values_stable [deal_A, deal_B] = [(''AI'', 2), (''Software'', 1)]"
  "funding_by_industry sort_values_stable [deal_A, deal_B] = [(''AI'', 300), (''Software'', 100)]"
  by code_simp+

lemma specification_scenario_money:
  "map_of (inv_ind_money sort_values_stable [deal_A, deal_B]) (''X'', ''AI'') = Some (Some 200)"
  unfolding inv_ind_money_def scenario_eval by code_simp

lemma df_exp_six_investors:
  "df_exp six_investors =
     [deal_of ''o1'' ''Y Combinator'' 5, deal_of ''o1'' ''A'' 5, deal_of ''o1'' ''B'' 5,
      deal_of ''o1'' ''C'' 5, deal_of ''o1'' ''D'' 5,
      deal_of ''o2'' ''Y Combinator'' 5, deal_of ''o2'' ''A'' 5, deal_of ''o2'' ''B'' 5,
      deal_of ''o2'' ''C'' 5, deal_of ''o2'' ''D'' 5,
      deal_of ''o3'' ''Y Combinator'' 2, deal_of ''o3'' ''E'' 2]"
  by code_simp

lemma top_investors_six_investors:
  "top_investors sort_values_stable six_investors = [''Y Combinator'', ''A'', ''B'', ''C'', ''D'']"
  unfolding top_investors_def df_exp_six_investors by code_simp

lemma top_industries_six_investors: "top_industries sort_values_stable six_investors = [''AI'']"
  unfolding top_industries_def df_exp_six_investors by code_simp

lemmas six_investors_eval = df_money_excluded_def df_money_def df_money_all_def
  df_exp_six_investors top_investors_six_investors top_industries_six_investors

subsection \<open>The expanded table and its rankings\<close>

lemma explode_col_append:
  "explode_col get put (a @ b) = explode_col get put a @ explode_col get put b"
  by (simp add: explode_col_def)

lemma df_exp_append: "df_exp (a @ b) = df_exp a @ df_exp b"
  by (simp add: df_exp_def explode_col_append)

lemma df_exp_nonblank: "e \<in> set (df_exp df) \<Longrightarrow> strip (investor_names e) \<noteq> ''''"
  by (simp add: df_exp_def)

lemma df_money_all_investor:
  "e \<in> set (df_money_all df) \<Longrightarrow> strip (investor_names e) \<noteq> ''''"
  by (auto simp: df_money_all_def with_money_per_investor_cols dest: df_exp_nonblank)

lemma top_investors_subset:
  "sorts_desc srt \<Longrightarrow> set (top_investors srt df) \<subseteq> investor_names ` set (df_exp df)"
  unfolding top_investors_def by (rule top_keys_subset)

lemma top_investors_no_yc_subset:
  "sorts_desc srt \<Longrightarrow>
   set (top_investors_no_yc srt df) \<subseteq> investor_names ` set (df_money_excluded srt df)"
  unfolding top_investors_no_yc_def by (rule top_keys_subset)

lemma df_money_excluded_row:
  assumes "e \<in> set (df_money_excluded srt df)"
  shows "investor_names e \<noteq> ''Y Combinator''"
    and "investor_names e \<in> set (top_investors srt df)"
    and "organization_industries e \<in> set (top_industries srt df)"
    and "e \<in> set (df_money_all df)"
  using assms by (simp_all add: df_money_excluded_def df_money_def isin_def EXCLUDED_INVESTORS_def)

lemma distinct_top_keys:
  assumes "sorts_desc srt"
  shows "distinct (map fst (take n (srt (groupby key agg df))))"
proof -
  have "mset (map fst (srt (groupby key agg df)))
      = image_mset fst (mset (groupby key agg df))"
    by (simp only: mset_map sorts_desc_mset [OF assms])
  also have "\<dots> = mset (map fst (groupby key agg df))"
    by (simp only: mset_map)
  finally have "mset (map fst (srt (groupby key agg df))) = mset (group_keys key df)"
    by (simp only: map_fst_groupby)
  then have "distinct (map fst (srt (groupby key agg df)))
      = distinct (group_keys key df)"
    by (rule mset_eq_imp_distinct_iff)
  then have "distinct (map fst (srt (groupby key agg df)))"
    by (simp only: distinct_group_keys)
  then have "distinct (take n (map fst (srt (groupby key agg df))))"
    by (rule distinct_take)
  then show ?thesis
    by (simp only: take_map)
qed

lemma length_le_removed:
  assumes "distinct ys" and "set ys \<subseteq> set xs - {x}" and "x \<in> set xs"
  shows "length ys \<le> length xs - 1"
proof -
  have "length ys = card (set ys)"
    using assms(1) by (simp add: distinct_card)
  also have "\<dots> \<le> card (set xs - {x})"
    using assms(2) by (simp add: card_mono)
  also have "\<dots> = card (set xs) - 1"
    using assms(3) by simp
  also have "\<dots> \<le> length xs - 1"
    using card_length [of xs] by simp
  finally show ?thesis .
qed

lemma length_top_investors: "length (top_investors srt df) \<le> 5"
  by (simp add: top_investors_def TOP_INVESTORS_def)

lemma top_investors_no_yc_sub:
  assumes "sorts_desc srt"
  shows "set (top_investors_no_yc srt df) \<subseteq> set (top_investors srt df) - {''Y Combinator''}"
proof
  fix v assume "v \<in> set (top_investors_no_yc srt df)"
  with top_investors_no_yc_subset [OF assms, of df]
  obtain e where e: "e \<in> set (df_money_excluded srt df)" and v: "v = investor_names e"
    by blast
  from df_money_excluded_row(1,2) [OF e]
  show "v \<in> set (top_investors srt df) - {''Y Combinator''}"
    unfolding v by (simp only: Diff_iff singleton_iff not_False_eq_True simp_thms)
qed

text \<open>
  C1 (as amended).  In analysis 5 the rows of Y Combinator are removed from
  \<^verbatim>\<open>df_money\<close>, the table that line 187 has already cut to the first top-5 investors
  and the top-10 industries, and the ranking by distinct organizations is recomputed on
  what is left.  Whatever the sort does with ties, the recomputed ranking never names
  Y Combinator, names only investors of the first top 5, and has at most four entries
  when Y Combinator was one of those five.
\<close>

theorem top_investors_no_yc_excludes:
  assumes "sorts_desc srt"
  shows "''Y Combinator'' \<notin> set (top_investors_no_yc srt df)
   \<and> set (top_investors_no_yc srt df) \<subseteq> set (top_investors srt df)
   \<and> (''Y Combinator'' \<in> set (top_investors srt df) \<longrightarrow> length (top_investors_no_yc srt df) \<le> 4)"
proof (intro conjI impI)
  note sub = top_investors_no_yc_sub [OF assms, of df]
  from sub show "''Y Combinator'' \<notin> set (top_investors_no_yc srt df)"
    by (rule contra_subsetD) (simp only: Diff_iff singleton_iff simp_thms not_False_eq_True)
  from sub show "set (top_investors_no_yc srt df) \<subseteq> set (top_investors srt df)"
    by (rule subset_trans) (rule Diff_subset)
  assume yc: "''Y Combinator'' \<in> set (top_investors srt df)"
  have "distinct (top_investors_no_yc srt df)"
    unfolding top_investors_no_yc_def using assms by (rule distinct_top_keys)
  then have "length (top_investors_no_yc srt df) \<le> length (top_investors srt df) - 1"
    using sub yc by (rule length_le_removed)
  with length_top_investors [of srt df] show "length (top_investors_no_yc srt df) \<le> 4"
    by linarith
qed

theorem top_investors_no_yc_excludes_witness:
  "''Y Combinator'' \<in> set (top_investors sort_values_stable six_investors)
   \<and> ''Y Combinator'' \<notin> set (top_investors_no_yc sort_values_stable six_investors)
   \<and> length (top_investors_no_yc sort_values_stable six_investors) \<le> 4"
proof -
  have yc: "''Y Combinator'' \<in> set (top_investors sort_values_stable six_investors)"
    unfolding top_investors_six_investors by code_simp
  from top_investors_no_yc_excludes [OF sorts_desc_stable, of six_investors] yc show ?thesis
    by (simp only: simp_thms)
qed

text \<open>
  The ranking is not recomputed over all remaining investors of the expanded table: with
  six investors, the sixth is never promoted into the place Y Combinator leaves.  (The
  organization counts are 3, 2 and 1 with no tie at a cut, so every sort gives these
  sets.)
\<close>

theorem top_investors_no_yc_counterexample:
  "''E'' \<notin> set (top_investors_no_yc sort_values_stable six_investors)
   \<and> length (top_investors_no_yc sort_values_stable six_investors) = 4
   \<and> ''E'' \<in> set (top_investors_no_yc_remainder sort_values_stable six_investors)
   \<and> length (top_investors_no_yc_remainder sort_values_stable six_investors) = 5"
  unfolding top_investors_no_yc_def top_investors_no_yc_remainder_def six_investors_eval
  by code_simp

subsection \<open>Empty industries\<close>

lemma top_keys_of_filter:
  assumes "sorts_desc srt"
    and "v \<in> set (map fst (take n (srt (groupby key agg (filter P df)))))"
  shows "\<exists>r\<in>set df. P r \<and> key r = v"
proof -
  from assms(2) top_keys_subset [OF assms(1), of n key agg "filter P df"]
  have "v \<in> key ` set (filter P df)" by (rule set_mp [rotated])
  then show ?thesis by auto
qed

lemma deals_by_industry_no_empty:
  assumes "sorts_desc srt"
  shows "'''' \<notin> set (map fst (deals_by_industry srt df))"
proof
  assume "'''' \<in> set (map fst (deals_by_industry srt df))"
  then obtain r where "organization_industries r \<noteq> ''''" and "organization_industries r = ''''"
    unfolding deals_by_industry_def by (blast dest: top_keys_of_filter [OF assms])
  then show False by simp
qed

lemma top_industries_t6_no_empty:
  assumes "sorts_desc srt"
  shows "'''' \<notin> set (top_industries_t6 srt df)"
proof
  assume "'''' \<in> set (top_industries_t6 srt df)"
  then obtain r where "organization_industries r \<noteq> ''''" and "organization_industries r = ''''"
    unfolding top_industries_t6_def by (blast dest: top_keys_of_filter [OF assms])
  then show False by simp
qed

lemma df_exp_no_industry_table:
  "df_exp no_industry_table =
     [deal_no_industry, deal_B\<lparr>investor_names := ''X''\<rparr>, deal_B\<lparr>investor_names := ''Y''\<rparr>]"
  by code_simp

text \<open>With two investors and two industries nothing is cut from the rankings of the
  table, whatever the sort.\<close>

lemma rankings_no_industry_table:
  assumes "sorts_desc srt"
  shows "set (top_investors srt no_industry_table) = {''X'', ''Y''}"
    and "set (top_industries srt no_industry_table) = {'''', ''AI''}"
proof -
  have "length (group_keys investor_names (df_exp no_industry_table)) \<le> TOP_INVESTORS"
    unfolding df_exp_no_industry_table by code_simp
  with assms have "set (top_investors srt no_industry_table)
      = investor_names ` set (df_exp no_industry_table)"
    unfolding top_investors_def by (rule top_keys_all)
  also have "\<dots> = {''X'', ''Y''}"
    unfolding df_exp_no_industry_table by (simp add: deal_no_industry_def insert_commute)
  finally show "set (top_investors srt no_industry_table) = {''X'', ''Y''}" .
  have "length (group_keys organization_industries (df_exp no_industry_table)) \<le> TOP_INDUSTRIES"
    unfolding df_exp_no_industry_table by code_simp
  with assms have "set (top_industries srt no_industry_table)
      = organization_industries ` set (df_exp no_industry_table)"
    unfolding top_industries_def by (rule top_keys_all)
  also have "\<dots> = {'''', ''AI''}"
    unfolding df_exp_no_industry_table by (simp add: deal_no_industry_def deal_B_def)
  finally show "set (top_industries srt no_industry_table) = {'''', ''AI''}" .
qed

lemma df_top_no_industry_table:
  assumes "sorts_desc srt"
  shows "df_top srt no_industry_table = df_exp no_industry_table"
proof -
  have "isin (investor_names r) (top_investors srt no_industry_table)
      \<and> isin (organization_industries r) (top_industries srt no_industry_table)"
    if "r \<in> set (df_exp no_industry_table)" for r
    using that unfolding isin_def rankings_no_industry_table [OF assms] df_exp_no_industry_table
    by (auto simp: deal_no_industry_def deal_B_def)
  then show ?thesis
    by (simp add: df_top_def)
qed

text \<open>
  C2.  The rankings of analyses 1 and 6 filter the empty industry out before they group
  (the two lemmas above).  The ranking \<^verbatim>\<open>top_industries\<close> of analyses 3 to 5 groups
  \<^verbatim>\<open>df_exp\<close> without that filter: in a table with a deal that lists an investor and
  no industry, the empty string is ranked, whatever the sort, and is an industry of the
  grouped output.
\<close>

theorem top_industries_keeps_empty_industry:
  assumes "sorts_desc srt"
  shows "'''' \<in> set (top_industries srt no_industry_table)
   \<and> map fst (inv_ind_deals srt no_industry_table)
       = [(''X'', ''''), (''X'', ''AI''), (''Y'', ''AI'')]"
proof
  show "'''' \<in> set (top_industries srt no_industry_table)"
    by (simp only: rankings_no_industry_table [OF assms] insertI1)
  have "map fst (inv_ind_deals srt no_industry_table)
      = group_keys (\<lambda>r. (investor_names r, organization_industries r)) (df_exp no_industry_table)"
    by (simp only: inv_ind_deals_def map_fst_groupby df_top_no_industry_table [OF assms])
  also have "\<dots> = [(''X'', ''''), (''X'', ''AI''), (''Y'', ''AI'')]"
    unfolding df_exp_no_industry_table by code_simp
  finally show "map fst (inv_ind_deals srt no_industry_table)
      = [(''X'', ''''), (''X'', ''AI''), (''Y'', ''AI'')]" .
qed

theorem top_industries_keeps_empty_industry_witness:
  "'''' \<in> set (top_industries sort_values_stable no_industry_table)
   \<and> map fst (inv_ind_deals sort_values_stable no_industry_table)
       = [(''X'', ''''), (''X'', ''AI''), (''Y'', ''AI'')]"
  by (rule top_industries_keeps_empty_industry) (rule sorts_desc_stable)

subsection \<open>Blank investors\<close>

lemma groupby_keys_subset: "set (map fst (groupby key agg df)) \<subseteq> key ` set df"
  by (simp only: map_fst_groupby set_group_keys subset_refl)

lemma df_exp_marker_only:
  assumes "investor_names r = ''Not Mentioned''"
  shows "df_exp [r] = []"
proof -
  have "replace_not_mentioned (investor_names r) = ''''"
    by (simp only: replace_not_mentioned_def assms simp_thms if_True)
  then show ?thesis
    by (simp add: df_exp_def explode_col_def filter_concat comp_def strip_empty)
qed

lemma df_exp_drop_marker_only:
  assumes "investor_names r = ''Not Mentioned''"
  shows "df_exp (xs @ r # ys) = df_exp (xs @ ys)"
proof -
  have "df_exp (xs @ r # ys) = df_exp xs @ df_exp [r] @ df_exp ys"
    using df_exp_append [of xs "[r] @ ys"] df_exp_append [of "[r]" ys] by simp
  then show ?thesis
    by (simp add: df_exp_marker_only [OF assms] df_exp_append)
qed

lemma df_money_row:
  assumes "e \<in> set (df_money srt df)"
  shows "e \<in> set (df_money_all df)"
    and "investor_names e \<in> set (top_investors srt df)"
    and "organization_industries e \<in> set (top_industries srt df)"
  using assms by (simp_all add: df_money_def isin_def)

lemma df_top_row: "e \<in> set (df_top srt df) \<Longrightarrow> e \<in> set (df_exp df)"
  by (simp add: df_top_def)

lemma df_money_filtered_row:
  "e \<in> set (df_money_filtered srt df) \<Longrightarrow> e \<in> set (df_money_all df)"
  by (auto simp: df_money_filtered_def dest: df_money_excluded_row(4))

lemma df_top_nonblank: "e \<in> set (df_top srt df) \<Longrightarrow> strip (investor_names e) \<noteq> []"
  by (rule df_exp_nonblank) (rule df_top_row)

lemma df_money_nonblank: "e \<in> set (df_money srt df) \<Longrightarrow> strip (investor_names e) \<noteq> []"
  by (rule df_money_all_investor) (rule df_money_row(1))

lemma df_money_filtered_nonblank:
  "e \<in> set (df_money_filtered srt df) \<Longrightarrow> strip (investor_names e) \<noteq> []"
  by (rule df_money_all_investor) (rule df_money_filtered_row)

lemma pair_keys_investor:
  assumes "k \<in> set (map fst (groupby (\<lambda>r. (investor_names r, organization_industries r)) agg g))"
    and "\<And>e. e \<in> set g \<Longrightarrow> strip (investor_names e) \<noteq> ''''"
  shows "strip (fst k) \<noteq> ''''"
proof -
  from assms(1) groupby_keys_subset [of "\<lambda>r. (investor_names r, organization_industries r)" agg g]
  obtain e where "e \<in> set g" and "k = (investor_names e, organization_industries e)"
    by blast
  with assms(2) [of e] show ?thesis by simp
qed

lemma top_investors_nonblank:
  assumes "sorts_desc srt" and "v \<in> set (top_investors srt df)"
  shows "strip v \<noteq> ''''"
proof -
  from assms(2) top_investors_subset [OF assms(1), of df]
  obtain e where "e \<in> set (df_exp df)" and "v = investor_names e"
    by blast
  then show ?thesis by (simp add: df_exp_nonblank)
qed

text \<open>
  C3 (as amended).  In analyses 3 to 5 no row of \<^verbatim>\<open>df_exp\<close> has a blank investor name
  (empty once stripped of whitespace, Unicode whitespace included), so none is named by
  the top-5 rankings, whatever the sort, or by a key of the grouped outputs; and a deal
  whose whole \<^verbatim>\<open>investor_names\<close> cell is the marker \<^verbatim>\<open>Not Mentioned\<close> is normalised
  to blank and contributes no row at all.
\<close>

theorem blank_investors_excluded:
  assumes "sorts_desc srt"
  shows "(\<forall>e\<in>set (df_exp df). strip (investor_names e) \<noteq> '''')
   \<and> (\<forall>v\<in>set (top_investors srt df). strip v \<noteq> '''')
   \<and> (\<forall>v\<in>set (top_investors_no_yc srt df). strip v \<noteq> '''')
   \<and> (\<forall>k\<in>set (map fst (inv_ind_deals srt df)). strip (fst k) \<noteq> '''')
   \<and> (\<forall>k\<in>set (map fst (inv_ind_money srt df)). strip (fst k) \<noteq> '''')
   \<and> (\<forall>k\<in>set (map fst (inv_ind_money_no_yc srt df)). strip (fst k) \<noteq> '''')
   \<and> (investor_names r = ''Not Mentioned'' \<longrightarrow> df_exp (xs @ r # ys) = df_exp (xs @ ys))"
proof (intro conjI ballI impI)
  fix e assume "e \<in> set (df_exp df)"
  then show "strip (investor_names e) \<noteq> ''''" by (rule df_exp_nonblank)
next
  fix v assume "v \<in> set (top_investors srt df)"
  with assms show "strip v \<noteq> ''''" by (rule top_investors_nonblank)
next
  fix v assume "v \<in> set (top_investors_no_yc srt df)"
  with top_investors_no_yc_subset [OF assms, of df]
  obtain e where e: "e \<in> set (df_money_excluded srt df)" and v: "v = investor_names e"
    by blast
  from df_money_excluded_row(4) [OF e] show "strip v \<noteq> ''''"
    unfolding v by (rule df_money_all_investor)
next
  fix k assume "k \<in> set (map fst (inv_ind_deals srt df))"
  then show "strip (fst k) \<noteq> ''''"
    unfolding inv_ind_deals_def
    by (rule pair_keys_investor) (rule df_top_nonblank)
next
  fix k assume "k \<in> set (map fst (inv_ind_money srt df))"
  then show "strip (fst k) \<noteq> ''''"
    unfolding inv_ind_money_def
    by (rule pair_keys_investor) (rule df_money_nonblank)
next
  fix k assume "k \<in> set (map fst (inv_ind_money_no_yc srt df))"
  then show "strip (fst k) \<noteq> ''''"
    unfolding inv_ind_money_no_yc_def
    by (rule pair_keys_investor) (rule df_money_filtered_nonblank)
next
  assume "investor_names r = ''Not Mentioned''"
  then show "df_exp (xs @ r # ys) = df_exp (xs @ ys)" by (rule df_exp_drop_marker_only)
qed

text \<open>A name that is only a no-break space is blank, and its row is dropped.\<close>

lemma df_exp_deal_nbsp: "df_exp [deal_nbsp] = [deal_nbsp\<lparr>investor_names := ''X''\<rparr>]"
  by code_simp

theorem blank_investors_excluded_witness:
  "''X'' \<in> set (top_investors sort_values_stable [deal_A, deal_B]) \<and> strip ''X'' \<noteq> ''''
   \<and> investor_names deal_marker_only = ''Not Mentioned''
   \<and> df_exp ([deal_A] @ deal_marker_only # []) = df_exp ([deal_A] @ [])"
proof -
  note t = blank_investors_excluded [OF sorts_desc_stable,
      of "[deal_A, deal_B]" deal_marker_only "[deal_A]" "[]"]
  have m: "''X'' \<in> set (top_investors sort_values_stable [deal_A, deal_B])"
    unfolding top_investors_scenario by code_simp
  have n: "investor_names deal_marker_only = ''Not Mentioned''"
    by (simp add: deal_marker_only_def)
  from t have "\<forall>v\<in>set (top_investors sort_values_stable [deal_A, deal_B]). strip v \<noteq> ''''"
    by (rule conjunct2 [THEN conjunct1])
  then have a: "strip ''X'' \<noteq> ''''"
    using m by (rule bspec)
  from t have "investor_names deal_marker_only = ''Not Mentioned''
      \<longrightarrow> df_exp ([deal_A] @ deal_marker_only # []) = df_exp ([deal_A] @ [])"
    by (elim conjE)
  then have b: "df_exp ([deal_A] @ deal_marker_only # []) = df_exp ([deal_A] @ [])"
    using n by (rule mp)
  from m a n b show ?thesis
    by (intro conjI)
qed

lemma df_exp_deal_marker_in_list:
  "df_exp [deal_marker_in_list]
     = [deal_marker_in_list\<lparr>investor_names := ''X''\<rparr>,
        deal_marker_in_list\<lparr>investor_names := ''Not Mentioned''\<rparr>]"
  by code_simp

lemma top_investors_deal_marker_in_list:
  "top_investors sort_values_stable [deal_marker_in_list] = [''Not Mentioned'', ''X'']"
  unfolding top_investors_def df_exp_deal_marker_in_list by code_simp

lemma top_industries_deal_marker_in_list:
  "top_industries sort_values_stable [deal_marker_in_list] = [''AI'']"
  unfolding top_industries_def df_exp_deal_marker_in_list by code_simp

text \<open>
  The marker is replaced only where it is the whole cell: listed beside another investor
  it survives the split as a name of its own, is ranked and is grouped.  (Two investors
  are ranked, fewer than five, so every sort ranks both.)
\<close>

theorem blank_investors_excluded_counterexample:
  "map investor_names (df_exp [deal_marker_in_list]) = [''X'', ''Not Mentioned'']
   \<and> ''Not Mentioned'' \<in> set (top_investors sort_values_stable [deal_marker_in_list])
   \<and> map fst (inv_ind_deals sort_values_stable [deal_marker_in_list])
       = [(''Not Mentioned'', ''AI''), (''X'', ''AI'')]"
  unfolding inv_ind_deals_def df_top_def top_investors_deal_marker_in_list
    top_industries_deal_marker_in_list df_exp_deal_marker_in_list
  by code_simp

subsection \<open>Splitting and exploding\<close>

lemma str_split_nonempty: "str_split sep s \<noteq> []"
  by (induction sep s rule: str_split.induct) (auto split: list.splits)

lemma str_split_empty: "str_split sep '''' = ['''']"
  by simp

lemma str_join_head: "str_join sep ((c # p) # ps) = c # str_join sep (p # ps)"
  by (cases ps) simp_all

lemma str_join_empty_head: "ps \<noteq> [] \<Longrightarrow> str_join sep ([] # ps) = sep @ str_join sep ps"
  by (cases ps) simp_all

lemma str_join_split: "sep \<noteq> [] \<Longrightarrow> str_join sep (str_split sep s) = s"
proof (induction sep s rule: str_split.induct)
  case (1 sep)
  show ?case by simp
next
  case (2 sep c cs)
  show ?case
  proof (cases "take (length sep) (c # cs) = sep")
    case True
    have "str_join sep (str_split sep (c # cs))
        = sep @ str_join sep (str_split sep (drop (length sep) (c # cs)))"
      using True "2.prems" by (simp add: str_join_empty_head str_split_nonempty)
    also have "\<dots> = sep @ drop (length sep) (c # cs)"
      using "2.IH"(1) True "2.prems" by simp
    also have "\<dots> = take (length sep) (c # cs) @ drop (length sep) (c # cs)"
      using True by simp
    finally show ?thesis by (simp only: append_take_drop_id)
  next
    case False
    obtain p ps where ps: "str_split sep cs = p # ps"
      using str_split_nonempty [of sep cs] by (cases "str_split sep cs") auto
    have "str_join sep (str_split sep (c # cs)) = c # str_join sep (p # ps)"
      using False ps by (simp add: str_join_head)
    also have "\<dots> = c # cs"
      using "2.IH"(2) False "2.prems" ps by simp
    finally show ?thesis .
  qed
qed

lemma explode_col_single:
  "explode_col get put [r] = map (\<lambda>v. put v r) (str_split comma_space (get r))"
  by (simp add: explode_col_def)

lemma explode_col_concat:
  "explode_col get put df = concat (map (\<lambda>r. explode_col get put [r]) df)"
  by (simp add: explode_col_def)

lemma df_industry_single:
  "df_industry [r]
     = map (\<lambda>v. r\<lparr>organization_industries := v\<rparr>) (str_split comma_space (organization_industries r))"
  by (simp add: df_industry_def explode_col_single)

lemma df_industry_concat: "df_industry df = concat (map (\<lambda>r. df_industry [r]) df)"
  unfolding df_industry_def by (rule explode_col_concat)

lemma df_industry_values:
  "map organization_industries (df_industry [r]) = str_split comma_space (organization_industries r)"
  by (simp add: df_industry_single comp_def)

lemma df_industry_other_columns:
  assumes "e \<in> set (df_industry [r])"
  shows "organization_name e = organization_name r \<and> investor_names e = investor_names r
     \<and> money_raised e = money_raised r \<and> investor_count_computed e = investor_count_computed r"
  using assms by (auto simp: df_industry_single)

lemma df_industry_no_value:
  assumes "organization_industries r = ''''"
  shows "df_industry [r] = [r]"
proof -
  have "r\<lparr>organization_industries := organization_industries r\<rparr> = r"
    by simp
  then have "r\<lparr>organization_industries := []\<rparr> = r"
    by (simp only: assms)
  then show ?thesis
    by (simp add: df_industry_single assms)
qed

lemma explode_investors_values:
  "map investor_names (explode_col investor_names (\<lambda>v r. r\<lparr>investor_names := v\<rparr>) [r])
     = str_split comma_space (investor_names r)"
  by (simp add: explode_col_single comp_def)

lemma explode_investors_other_columns:
  assumes "e \<in> set (explode_col investor_names (\<lambda>v r. r\<lparr>investor_names := v\<rparr>) [r])"
  shows "organization_name e = organization_name r
     \<and> organization_industries e = organization_industries r
     \<and> money_raised e = money_raised r \<and> investor_count_computed e = investor_count_computed r"
  using assms by (auto simp: explode_col_single)

text \<open>
  C7.  Exploding a multi-valued column works row by row: a row becomes one row per piece
  of the comma-space split of its cell, the pieces in order, and every other column of a
  produced row is the source row's.  The split of the empty string is the single empty
  piece, so a row with nothing listed survives as itself, once.  This holds for the
  industries column (\<^verbatim>\<open>df_industry\<close>) and for the investors column exploded next
  (\<^verbatim>\<open>df_investor\<close>).
\<close>

theorem explode_one_row_per_value:
  "df_industry df = concat (map (\<lambda>r. df_industry [r]) df)
   \<and> map organization_industries (df_industry [r])
       = str_split comma_space (organization_industries r)
   \<and> (\<forall>e\<in>set (df_industry [r]).
         organization_name e = organization_name r \<and> investor_names e = investor_names r
         \<and> money_raised e = money_raised r
         \<and> investor_count_computed e = investor_count_computed r)
   \<and> str_split comma_space '''' = ['''']
   \<and> (organization_industries r = '''' \<longrightarrow> df_industry [r] = [r])
   \<and> df_investor df
       = concat (map (\<lambda>r. explode_col investor_names (\<lambda>v r. r\<lparr>investor_names := v\<rparr>) [r])
           (df_industry df))
   \<and> map investor_names (explode_col investor_names (\<lambda>v r. r\<lparr>investor_names := v\<rparr>) [r])
       = str_split comma_space (investor_names r)
   \<and> (\<forall>e\<in>set (explode_col investor_names (\<lambda>v r. r\<lparr>investor_names := v\<rparr>) [r]).
         organization_name e = organization_name r
         \<and> organization_industries e = organization_industries r
         \<and> money_raised e = money_raised r
         \<and> investor_count_computed e = investor_count_computed r)"
proof (intro conjI ballI impI)
  show "df_industry df = concat (map (\<lambda>r. df_industry [r]) df)"
    by (rule df_industry_concat)
  show "map organization_industries (df_industry [r])
      = str_split comma_space (organization_industries r)"
    by (rule df_industry_values)
  show "str_split comma_space '''' = ['''']"
    by (rule str_split_empty)
  show "df_investor df
      = concat (map (\<lambda>r. explode_col investor_names (\<lambda>v r. r\<lparr>investor_names := v\<rparr>) [r])
          (df_industry df))"
    unfolding df_investor_def by (rule explode_col_concat)
  show "map investor_names (explode_col investor_names (\<lambda>v r. r\<lparr>investor_names := v\<rparr>) [r])
      = str_split comma_space (investor_names r)"
    by (rule explode_investors_values)
next
  fix e assume e: "e \<in> set (df_industry [r])"
  from df_industry_other_columns [OF e]
  show "organization_name e = organization_name r" and "investor_names e = investor_names r"
    and "money_raised e = money_raised r"
    and "investor_count_computed e = investor_count_computed r"
    by simp_all
next
  assume "organization_industries r = ''''"
  then show "df_industry [r] = [r]" by (rule df_industry_no_value)
next
  fix e assume e: "e \<in> set (explode_col investor_names (\<lambda>v r. r\<lparr>investor_names := v\<rparr>) [r])"
  from explode_investors_other_columns [OF e]
  show "organization_name e = organization_name r"
    and "organization_industries e = organization_industries r"
    and "money_raised e = money_raised r"
    and "investor_count_computed e = investor_count_computed r"
    by simp_all
qed

theorem explode_one_row_per_value_witness:
  "df_industry [deal_A]
     = [deal_A\<lparr>organization_industries := ''AI''\<rparr>,
        deal_A\<lparr>organization_industries := ''Software''\<rparr>]
   \<and> organization_name (deal_A\<lparr>organization_industries := ''Software''\<rparr>)
       = organization_name deal_A
   \<and> organization_industries deal_no_industry = ''''
   \<and> df_industry [deal_no_industry] = [deal_no_industry]"
proof -
  have rows: "df_industry [deal_A]
     = [deal_A\<lparr>organization_industries := ''AI''\<rparr>,
        deal_A\<lparr>organization_industries := ''Software''\<rparr>]"
    by (simp add: df_industry_single deal_A_def)
  then have m: "deal_A\<lparr>organization_industries := ''Software''\<rparr> \<in> set (df_industry [deal_A])"
    by simp
  have n: "organization_industries deal_no_industry = ''''"
    by (simp add: deal_no_industry_def)
  note a = explode_one_row_per_value [of "[deal_A]" deal_A]
  note b = explode_one_row_per_value [of "[deal_no_industry]" deal_no_industry]
  from a m have "organization_name (deal_A\<lparr>organization_industries := ''Software''\<rparr>)
      = organization_name deal_A"
    by blast
  moreover from b n have "df_industry [deal_no_industry] = [deal_no_industry]"
    by blast
  ultimately show ?thesis
    using rows n by blast
qed

subsection \<open>Collapsing an exploded table\<close>

lemma map_of_tabulate: "k \<in> set ks \<Longrightarrow> map_of (map (\<lambda>k. (k, F k)) ks) k = Some (F k)"
  by (induction ks) auto

lemma map_of_groupby:
  assumes "k \<in> key ` set df"
  shows "map_of (groupby key agg df) k = Some (agg (filter (\<lambda>r. key r = k) df))"
proof -
  have "k \<in> set (group_keys key df)"
    using assms by (simp only: set_group_keys)
  then show ?thesis
    unfolding groupby_def by (rule map_of_tabulate)
qed

lemma filter_concat_own_key:
  assumes "distinct (map f xs)" and "x \<in> set xs"
    and "\<And>y e. e \<in> set (g y) \<Longrightarrow> h e = f y"
  shows "filter (\<lambda>e. h e = f x) (concat (map g xs)) = g x"
  using assms(1,2)
proof (induction xs)
  case Nil
  then show ?case by simp
next
  case (Cons y ys)
  have own: "filter (\<lambda>e. h e = f y) (g y) = g y"
    by (rule filter_True) (simp add: assms(3))
  have other: "filter (\<lambda>e. h e = k) (g z) = []" if "f z \<noteq> k" for z k
    using that by (auto simp: filter_empty_conv assms(3))
  have "f y \<notin> f ` set ys"
    using Cons.prems(1) by simp
  then have "\<forall>z\<in>set ys. f z \<noteq> f y"
    by (metis imageI)
  then have rest_none: "filter (\<lambda>e. h e = f y) (concat (map g ys)) = []"
    by (auto simp: filter_empty_conv assms(3))
  show ?case
  proof (cases "x = y")
    case True
    then show ?thesis by (simp add: own rest_none)
  next
    case False
    with Cons.prems have x: "x \<in> set ys" and "f y \<noteq> f x" by auto
    then show ?thesis
      using Cons.IH Cons.prems(1) by (simp add: other)
  qed
qed

lemma name_in_df_industry:
  assumes "r \<in> set df"
  shows "organization_name r \<in> organization_name ` set (df_industry df)"
proof -
  obtain v vs where "str_split comma_space (organization_industries r) = v # vs"
    using str_split_nonempty [of comma_space "organization_industries r"]
    by (cases "str_split comma_space (organization_industries r)") auto
  then have "r\<lparr>organization_industries := v\<rparr> \<in> set (df_industry [r])"
    by (simp add: df_industry_single)
  with assms have "r\<lparr>organization_industries := v\<rparr> \<in> set (df_industry df)"
    by (subst df_industry_concat) auto
  then have "organization_name (r\<lparr>organization_industries := v\<rparr>)
      \<in> organization_name ` set (df_industry df)"
    by (rule imageI)
  then show ?thesis by simp
qed

text \<open>
  C8 (as amended).  For a table whose organization names are pairwise distinct,
  collapsing the industry-exploded table on \<^verbatim>\<open>organization_name\<close> and joining the
  split values with the delimiter gives back, for every row, its original
  \<^verbatim>\<open>organization_industries\<close> string, character for character and so also as a set
  of values.
\<close>

theorem collapse_reconstructs_industries:
  assumes "distinct (map organization_name df)" and "r \<in> set df"
  shows "map_of (collapse_industries (df_industry df)) (organization_name r)
           = Some (organization_industries r)"
proof -
  have "filter (\<lambda>e. organization_name e = organization_name r)
          (concat (map (\<lambda>r. df_industry [r]) df)) = df_industry [r]"
    using assms
    by (rule filter_concat_own_key) (simp add: df_industry_other_columns)
  then have group: "filter (\<lambda>e. organization_name e = organization_name r) (df_industry df)
      = df_industry [r]"
    by (simp only: df_industry_concat [symmetric])
  have "map_of (collapse_industries (df_industry df)) (organization_name r)
      = Some (str_join comma_space (map organization_industries (df_industry [r])))"
    unfolding collapse_industries_def
    by (simp only: map_of_groupby [OF name_in_df_industry [OF assms(2)]] group)
  also have "\<dots> = Some (organization_industries r)"
    by (simp only: df_industry_values) (simp add: str_join_split)
  finally show ?thesis .
qed

theorem collapse_reconstructs_industries_witness:
  "distinct (map organization_name [deal_A, deal_B]) \<and> deal_A \<in> set [deal_A, deal_B]
   \<and> map_of (collapse_industries (df_industry [deal_A, deal_B])) ''A'' = Some ''AI, Software''"
proof -
  have d: "distinct (map organization_name [deal_A, deal_B])"
    by (simp add: deal_A_def deal_B_def)
  have m: "deal_A \<in> set [deal_A, deal_B]"
    by simp
  from collapse_reconstructs_industries [OF d m] d m show ?thesis
    by (simp add: deal_A_def)
qed

text \<open>
  With two rounds of one organization the groups of the two rows merge, and the joined
  string has a value the first row never listed.
\<close>

theorem collapse_reconstructs_industries_counterexample:
  "map_of (collapse_industries (df_industry two_rounds)) (organization_name (two_rounds ! 0))
     = Some ''AI, Software''
   \<and> organization_industries (two_rounds ! 0) = ''AI''
   \<and> set (str_split comma_space ''AI, Software'') \<noteq> set (str_split comma_space ''AI'')"
  by code_simp

subsection \<open>Sums over groups\<close>

lemma sum_list_filter_disj:
  fixes f :: "'a \<Rightarrow> 'b::comm_monoid_add"
  assumes "\<And>x. \<not> (P x \<and> Q x)"
  shows "sum_list (map f (filter (\<lambda>x. P x \<or> Q x) xs))
     = sum_list (map f (filter P xs)) + sum_list (map f (filter Q xs))"
  using assms by (induction xs) (auto simp: ac_simps)

text \<open>The group sums of distinct keys add up to the sum over the rows with those keys.\<close>

lemma sum_groups:
  fixes f :: "'a \<Rightarrow> 'b::comm_monoid_add"
  assumes "distinct ks"
  shows "(\<Sum>k\<leftarrow>ks. sum_list (map f (filter (\<lambda>x. key x = k) xs)))
     = sum_list (map f (filter (\<lambda>x. key x \<in> set ks) xs))"
  using assms
proof (induction ks)
  case Nil
  then show ?case by simp
next
  case (Cons k ks)
  have "sum_list (map f (filter (\<lambda>x. key x \<in> set (k # ks)) xs))
      = sum_list (map f (filter (\<lambda>x. key x = k \<or> key x \<in> set ks) xs))"
    by simp
  also have "\<dots> = sum_list (map f (filter (\<lambda>x. key x = k) xs))
      + sum_list (map f (filter (\<lambda>x. key x \<in> set ks) xs))"
    using Cons.prems by (intro sum_list_filter_disj) auto
  finally show ?case
    using Cons by simp
qed

lemma sum_groupby:
  fixes f :: "'a \<Rightarrow> 'b::comm_monoid_add"
  shows "sum_list (map snd (groupby key (\<lambda>g. sum_list (map f g)) xs)) = sum_list (map f xs)"
proof -
  have "sum_list (map snd (groupby key (\<lambda>g. sum_list (map f g)) xs))
      = (\<Sum>k\<leftarrow>group_keys key xs. sum_list (map f (filter (\<lambda>x. key x = k) xs)))"
    by (simp add: groupby_def comp_def)
  also have "\<dots> = sum_list (map f (filter (\<lambda>x. key x \<in> set (group_keys key xs)) xs))"
    by (rule sum_groups) (rule distinct_group_keys)
  also have "filter (\<lambda>x. key x \<in> set (group_keys key xs)) xs = xs"
    by (rule filter_True) (simp add: set_group_keys)
  finally show ?thesis .
qed

lemma sum_sorts_desc:
  fixes s :: "('k \<times> 'v::{linorder,comm_monoid_add}) list"
  assumes "sorts_desc srt"
  shows "sum_list (map snd (srt s)) = sum_list (map snd s)"
proof -
  have "mset (map snd (srt s)) = mset (map snd s)"
    by (simp only: mset_map sorts_desc_mset [OF assms])
  then show ?thesis
    by (metis sum_mset_sum_list)
qed

lemma sum_funding_by_industry:
  assumes "sorts_desc srt"
  shows "sum_list (map snd (funding_by_industry srt df))
     = sum_list (map money_raised (df_industry df))"
  unfolding funding_by_industry_def sum_money_def
  by (simp only: sum_sorts_desc [OF assms] sum_groupby)

text \<open>
  C5.  In analysis 2 no money is lost by the cut at 80, whatever the sort does with ties:
  the money of the first 80 rows of the ranking plus the value of the appended
  \<^verbatim>\<open>Other\<close> row is the sum of the money of all industries, which is the sum of
  \<^verbatim>\<open>money_raised\<close> over the industry-expanded table; and the treemap table is those
  first 80 rows followed by that one row.
\<close>

theorem treemap_no_leakage:
  assumes "sorts_desc srt"
  shows "sum_list (map snd (top_industries_funding srt df)) + snd (other_row srt df)
     = sum_list (map snd (funding_by_industry srt df))
   \<and> sum_list (map snd (funding_by_industry srt df)) = sum_list (map money_raised (df_industry df))
   \<and> funding_treemap_df srt df = take 80 (funding_by_industry srt df) @ [other_row srt df]
   \<and> fst (other_row srt df) = ''Other''"
proof (intro conjI)
  have "sum_list (map snd (top_industries_funding srt df)) + snd (other_row srt df)
      = sum_list (map snd (take TOP_N (funding_by_industry srt df)))
        + sum_list (map snd (drop TOP_N (funding_by_industry srt df)))"
    by (simp add: top_industries_funding_def other_row_def other_industries_def)
  also have "\<dots>
      = sum_list (map snd (take TOP_N (funding_by_industry srt df)
          @ drop TOP_N (funding_by_industry srt df)))"
    by (simp only: map_append sum_list_append)
  finally show "sum_list (map snd (top_industries_funding srt df)) + snd (other_row srt df)
      = sum_list (map snd (funding_by_industry srt df))"
    by (simp only: append_take_drop_id)
  show "sum_list (map snd (funding_by_industry srt df))
      = sum_list (map money_raised (df_industry df))"
    using assms by (rule sum_funding_by_industry)
  show "funding_treemap_df srt df = take 80 (funding_by_industry srt df) @ [other_row srt df]"
    by (simp add: funding_treemap_df_def top_industries_funding_def TOP_N_def)
  show "fst (other_row srt df) = ''Other''"
    by (simp add: other_row_def)
qed

theorem treemap_no_leakage_witness:
  "sum_list (map snd (top_industries_funding sort_values_stable [deal_A, deal_B]))
     + snd (other_row sort_values_stable [deal_A, deal_B])
   = 400"
proof -
  have "sum_list (map snd (top_industries_funding sort_values_stable [deal_A, deal_B]))
        + snd (other_row sort_values_stable [deal_A, deal_B])
      = sum_list (map money_raised (df_industry [deal_A, deal_B]))"
    using treemap_no_leakage [OF sorts_desc_stable, of "[deal_A, deal_B]"]
    by (elim conjE) (rule trans)
  also have "\<dots> = 400"
    by code_simp
  finally show ?thesis .
qed

subsection \<open>The rows of one deal in the expanded table\<close>

lemma df_exp_single:
  "df_exp [r] =
     concat (map (\<lambda>i. map (\<lambda>v. r\<lparr>organization_industries := i, investor_names := v\<rparr>)
                         (filter (\<lambda>v. strip v \<noteq> '''') (listed_investors r)))
                 (listed_industries r))"
  by (simp add: df_exp_def explode_col_def listed_industries_def listed_investors_def
      filter_concat filter_map comp_def map_concat)

lemma df_exp_concat: "df_exp df = concat (map (\<lambda>r. df_exp [r]) df)"
proof (induction df)
  case Nil
  show ?case by (simp add: df_exp_def explode_col_def)
next
  case (Cons r df)
  have "df_exp (r # df) = df_exp [r] @ df_exp df"
    using df_exp_append [of "[r]" df] by simp
  with Cons show ?case by simp
qed

lemma df_exp_row_cols:
  assumes "e \<in> set (df_exp [r])"
  shows "organization_name e = organization_name r" and "money_raised e = money_raised r"
    and "investor_count_computed e = investor_count_computed r" and "share_of e = share_of r"
  using assms by (auto simp: df_exp_single share_of_def)

lemma length_filter_df_exp_single:
  "length (filter (\<lambda>e. Pinv (investor_names e) \<and> Pind (organization_industries e)) (df_exp [r]))
     = length (filter Pind (listed_industries r))
       * length (filter (\<lambda>w. Pinv w \<and> strip w \<noteq> '''') (listed_investors r))"
proof -
  have "length (filter (\<lambda>e. Pinv (investor_names e) \<and> Pind (organization_industries e))
          (concat (map (\<lambda>i. map (\<lambda>v. r\<lparr>organization_industries := i, investor_names := v\<rparr>) ws) is)))
      = length (filter Pind is) * length (filter Pinv ws)" for ws "is"
    by (induction "is") (simp_all add: filter_map comp_def)
  then show ?thesis
    by (simp add: df_exp_single conj_commute)
qed

subsection \<open>Sums of the money-per-investor column\<close>

lemma df_money_all_append: "df_money_all (a @ b) = df_money_all a @ df_money_all b"
  by (simp add: df_money_all_def df_exp_append)

lemma df_money_all_concat: "df_money_all df = concat (map (\<lambda>r. df_money_all [r]) df)"
  by (induction df) (simp_all add: df_money_all_def df_exp_def explode_col_def map_concat comp_def)

lemma share_of_with: "share_of (with_money_per_investor r) = share_of r"
  by (simp add: share_of_def with_money_per_investor_cols)

lemma money_per_investor_share:
  assumes "e \<in> set (df_money_all df)"
  shows "money_per_investor e = Some (share_of e)"
proof -
  from assms obtain r where "e = with_money_per_investor r"
    by (auto simp: df_money_all_def)
  then show ?thesis
    by (simp add: money_per_investor_with share_of_def with_money_per_investor_cols)
qed

lemma money_per_investor_finite: "e \<in> set (df_money_all df) \<Longrightarrow> money_per_investor e \<noteq> None"
  by (simp add: money_per_investor_share)

lemma sum_cells_Some: "sum_cells (map (\<lambda>e. Some (h e)) g) = Some (sum_list (map h g))"
  by (induction g) simp_all

lemma sum_cells_shares:
  assumes "set g \<subseteq> set (df_money_all df)"
  shows "sum_cells (map money_per_investor g) = Some (sum_list (map share_of g))"
proof -
  have "map money_per_investor g = map (\<lambda>e. Some (share_of e)) g"
    using assms by (intro map_cong refl money_per_investor_share) auto
  then show ?thesis
    by (simp only: sum_cells_Some)
qed

lemma sum_list_const: "(\<And>x. x \<in> set xs \<Longrightarrow> f x = c) \<Longrightarrow> sum_list (map f xs) = of_nat (length xs) * (c::rat)"
  by (induction xs) (simp_all add: algebra_simps)

lemma filter_df_money_all:
  "filter P (df_money_all df) = map with_money_per_investor (filter (\<lambda>e. P (with_money_per_investor e)) (df_exp df))"
  by (simp add: df_money_all_def filter_map comp_def)

text \<open>The shares a deal is credited with under the rows that pass a test on the investor
  name and a test on the industry.\<close>

lemma sum_shares_single:
  "sum_list (map share_of
       (filter (\<lambda>e. Pinv (investor_names e) \<and> Pind (organization_industries e)) (df_exp [r])))
     = of_nat (length (filter Pind (listed_industries r))
               * length (filter (\<lambda>w. Pinv w \<and> strip w \<noteq> '''') (listed_investors r)))
       * share_of r"
proof -
  have "sum_list (map share_of
       (filter (\<lambda>e. Pinv (investor_names e) \<and> Pind (organization_industries e)) (df_exp [r])))
     = of_nat (length
         (filter (\<lambda>e. Pinv (investor_names e) \<and> Pind (organization_industries e)) (df_exp [r])))
       * share_of r"
    by (rule sum_list_const) (simp add: df_exp_row_cols(4))
  then show ?thesis
    by (simp only: length_filter_df_exp_single)
qed

lemma count_list_filter: "length (filter (\<lambda>x. x = a) xs) = count_list xs a"
  by (induction xs) simp_all

subsection \<open>The shares of one deal in analyses 4 and 5\<close>

lemma df_money_by_deal: "df_money srt df = concat (map (df_money_of srt df) df)"
  unfolding df_money_def df_money_of_def
  by (subst df_money_all_concat) (simp add: filter_concat comp_def)

lemma df_money_filtered_by_deal:
  "df_money_filtered srt df = concat (map (df_money_filtered_of srt df) df)"
  unfolding df_money_filtered_def df_money_excluded_def df_money_filtered_of_def
  by (subst df_money_by_deal) (simp add: filter_concat comp_def)

lemma df_money_of_subset: "set (df_money_of srt df r) \<subseteq> set (df_money_all [r])"
  by (auto simp: df_money_of_def)

lemma df_money_filtered_of_subset: "set (df_money_filtered_of srt df r) \<subseteq> set (df_money_all [r])"
  by (auto simp: df_money_filtered_of_def df_money_of_def)

lemma share_of_df_money_all_single:
  assumes "e \<in> set (df_money_all [r])"
  shows "money_per_investor e = Some (share_of r)"
proof -
  from assms obtain x where x: "x \<in> set (df_exp [r])" and ex: "e = with_money_per_investor x"
    by (auto simp: df_money_all_def)
  have "money_per_investor e = Some (share_of e)"
    using assms by (rule money_per_investor_share)
  also have "share_of e = share_of r"
    by (simp only: ex share_of_with df_exp_row_cols(4) [OF x])
  finally show ?thesis .
qed

lemma top_investors_no_yc_member:
  assumes "sorts_desc srt" and "v \<in> set (top_investors_no_yc srt df)"
  shows "v \<in> set (top_investors srt df)" and "\<not> isin v EXCLUDED_INVESTORS"
proof -
  from assms(2) top_investors_no_yc_sub [OF assms(1), of df]
  have v: "v \<in> set (top_investors srt df) - {''Y Combinator''}" by (rule set_mp [rotated])
  then show "v \<in> set (top_investors srt df)" by (rule DiffD1)
  from v have "v \<notin> {''Y Combinator''}" by (simp only: Diff_iff simp_thms)
  then show "\<not> isin v EXCLUDED_INVESTORS"
    by (simp only: isin_def EXCLUDED_INVESTORS_def list.set simp_thms)
qed

text \<open>The shares of a deal's rows whose investor passes a test that only non-blank names
  pass, under one industry.\<close>

lemma sum_shares_of_deal:
  assumes "\<And>w. Pinv w \<Longrightarrow> strip w \<noteq> ''''"
  shows "sum_cells (map money_per_investor
           (filter (\<lambda>e. Pinv (investor_names e) \<and> organization_industries e = i)
              (df_money_all [r])))
         = Some (of_nat (count_list (listed_industries r) i
                         * length (filter Pinv (listed_investors r))) * share_of r)"
proof -
  let ?rows = "filter (\<lambda>e. Pinv (investor_names e) \<and> organization_industries e = i)
      (df_money_all [r])"
  have keep: "filter (\<lambda>w. Pinv w \<and> strip w \<noteq> '''') ws = filter Pinv ws" for ws
    using assms by (intro filter_cong refl) auto
  have "sum_cells (map money_per_investor ?rows) = Some (sum_list (map share_of ?rows))"
    by (rule sum_cells_shares [of _ "[r]"]) auto
  also have "sum_list (map share_of ?rows)
      = sum_list (map share_of
          (filter (\<lambda>e. Pinv (investor_names e) \<and> organization_industries e = i) (df_exp [r])))"
    by (simp add: filter_df_money_all with_money_per_investor_cols comp_def share_of_with)
  also have "\<dots> = of_nat (length (filter (\<lambda>x. x = i) (listed_industries r))
               * length (filter (\<lambda>w. Pinv w \<and> strip w \<noteq> '''') (listed_investors r)))
       * share_of r"
    by (rule sum_shares_single)
  finally show ?thesis
    by (simp only: keep count_list_filter)
qed

lemma sum_df_money_of:
  assumes "sorts_desc srt" and "isin i (top_industries srt df)"
  shows "sum_cells (map money_per_investor
           (filter (\<lambda>e. organization_industries e = i) (df_money_of srt df r)))
         = Some (of_nat (count_list (listed_industries r) i
              * length (filter (\<lambda>w. isin w (top_investors srt df)) (listed_investors r)))
            * share_of r)"
proof -
  have "sum_cells (map money_per_investor
        (filter (\<lambda>e. organization_industries e = i) (df_money_of srt df r)))
      = sum_cells (map money_per_investor
        (filter (\<lambda>e. isin (investor_names e) (top_investors srt df)
                    \<and> organization_industries e = i) (df_money_all [r])))"
  proof -
    have "filter (\<lambda>e. organization_industries e = i) (df_money_of srt df r)
      = filter (\<lambda>e. isin (investor_names e) (top_investors srt df)
                    \<and> organization_industries e = i) (df_money_all [r])"
      unfolding df_money_of_def filter_filter
      using assms(2) by (intro filter_cong refl) auto
    then show ?thesis by (simp only:)
  qed
  also have "\<dots>
      = Some (of_nat (count_list (listed_industries r) i
              * length (filter (\<lambda>w. isin w (top_investors srt df)) (listed_investors r)))
            * share_of r)"
  proof (rule sum_shares_of_deal [where Pinv = "\<lambda>w. isin w (top_investors srt df)"])
    fix w assume "isin w (top_investors srt df)"
    with assms(1) show "strip w \<noteq> []"
      unfolding isin_def by (rule top_investors_nonblank)
  qed
  finally show ?thesis .
qed

lemma sum_df_money_filtered_of:
  assumes "sorts_desc srt" and "isin i (top_industries srt df)"
  shows "sum_cells (map money_per_investor
           (filter (\<lambda>e. organization_industries e = i) (df_money_filtered_of srt df r)))
         = Some (of_nat (count_list (listed_industries r) i
              * length (filter (\<lambda>w. isin w (top_investors_no_yc srt df)) (listed_investors r)))
            * share_of r)"
proof -
  have "sum_cells (map money_per_investor
        (filter (\<lambda>e. organization_industries e = i) (df_money_filtered_of srt df r)))
      = sum_cells (map money_per_investor
        (filter (\<lambda>e. isin (investor_names e) (top_investors_no_yc srt df)
                    \<and> organization_industries e = i) (df_money_all [r])))"
  proof -
    have "filter (\<lambda>e. organization_industries e = i) (df_money_filtered_of srt df r)
      = filter (\<lambda>e. isin (investor_names e) (top_investors_no_yc srt df)
                    \<and> organization_industries e = i) (df_money_all [r])"
      unfolding df_money_filtered_of_def df_money_of_def filter_filter
      using assms(2) top_investors_no_yc_member [OF assms(1), of _ df]
      by (intro filter_cong refl) (auto simp: isin_def)
    then show ?thesis by (simp only:)
  qed
  also have "\<dots>
      = Some (of_nat (count_list (listed_industries r) i
              * length (filter (\<lambda>w. isin w (top_investors_no_yc srt df)) (listed_investors r)))
            * share_of r)"
  proof (rule sum_shares_of_deal [where Pinv = "\<lambda>w. isin w (top_investors_no_yc srt df)"])
    fix w assume "isin w (top_investors_no_yc srt df)"
    then have "w \<in> set (top_investors srt df)"
      unfolding isin_def by (rule top_investors_no_yc_member(1) [OF assms(1)])
    with assms(1) show "strip w \<noteq> []" by (rule top_investors_nonblank)
  qed
  finally show ?thesis .
qed

lemma top_investors_no_yc_six_investors:
  "top_investors_no_yc sort_values_stable six_investors = [''A'', ''B'', ''C'', ''D'']"
  unfolding top_investors_no_yc_def six_investors_eval by code_simp

text \<open>
  C4 (as amended).  Take a deal with \<^verbatim>\<open>investor_count_computed\<close> \<open>N > 0\<close> and money
  \<open>M\<close> in a table.  The tables of analyses 4 and 5 are made deal by deal, and every row
  they keep of the deal carries the share \<open>M / N\<close>.  Under an industry of the top 10 that
  the deal lists once, the shares credited in analysis 4 add up to \<open>k \<cdot> M / N\<close>, where
  \<open>k\<close> counts the deal's listed investors that are in the top-5 ranking; in analysis 5
  \<open>k\<close> counts those in the recomputed ranking.  The shares add up to \<open>M\<close> when all
  \<open>N\<close> listed investors are in the ranking.  (Exact arithmetic; the script's floats agree
  up to rounding.)
\<close>

theorem shares_credited_to_ranked_investors:
  assumes "sorts_desc srt" and "investor_count_computed r = N" and "0 < N"
  shows "df_money srt df = concat (map (df_money_of srt df) df)
   \<and> df_money_filtered srt df = concat (map (df_money_filtered_of srt df) df)
   \<and> (\<forall>e\<in>set (df_money_of srt df r). money_per_investor e = Some (money_raised r / of_int N))
   \<and> (\<forall>e\<in>set (df_money_filtered_of srt df r).
         money_per_investor e = Some (money_raised r / of_int N))
   \<and> (isin i (top_industries srt df) \<and> count_list (listed_industries r) i = 1 \<longrightarrow>
        sum_cells (map money_per_investor
          (filter (\<lambda>e. organization_industries e = i) (df_money_of srt df r)))
        = Some (of_nat (length (filter (\<lambda>w. isin w (top_investors srt df)) (listed_investors r)))
                * (money_raised r / of_int N))
        \<and> sum_cells (map money_per_investor
          (filter (\<lambda>e. organization_industries e = i) (df_money_filtered_of srt df r)))
        = Some (of_nat (length (filter (\<lambda>w. isin w (top_investors_no_yc srt df))
                                    (listed_investors r)))
                * (money_raised r / of_int N)))
   \<and> (isin i (top_industries srt df) \<and> count_list (listed_industries r) i = 1
        \<and> length (listed_investors r) = nat N
        \<and> (\<forall>w\<in>set (listed_investors r). isin w (top_investors srt df)) \<longrightarrow>
        sum_cells (map money_per_investor
          (filter (\<lambda>e. organization_industries e = i) (df_money_of srt df r)))
        = Some (money_raised r))"
proof -
  have share: "share_of r = money_raised r / of_int N"
    using assms(2,3) by (simp add: share_of_def replace_0_1_def)
  have rows4: "money_per_investor e = Some (money_raised r / of_int N)"
    if "e \<in> set (df_money_of srt df r)" for e
  proof -
    from that df_money_of_subset [of srt df r] have "e \<in> set (df_money_all [r])"
      by (rule set_mp [rotated])
    then show ?thesis
      by (simp only: share_of_df_money_all_single share)
  qed
  have rows5: "money_per_investor e = Some (money_raised r / of_int N)"
    if "e \<in> set (df_money_filtered_of srt df r)" for e
  proof -
    from that df_money_filtered_of_subset [of srt df r] have "e \<in> set (df_money_all [r])"
      by (rule set_mp [rotated])
    then show ?thesis
      by (simp only: share_of_df_money_all_single share)
  qed
  have sum4: "sum_cells (map money_per_investor
          (filter (\<lambda>e. organization_industries e = i) (df_money_of srt df r)))
        = Some (of_nat (length (filter (\<lambda>w. isin w (top_investors srt df)) (listed_investors r)))
                * (money_raised r / of_int N))"
    if "isin i (top_industries srt df)" and "count_list (listed_industries r) i = 1"
    using sum_df_money_of [OF assms(1) that(1), of r] by (simp add: that(2) share)
  have sum5: "sum_cells (map money_per_investor
          (filter (\<lambda>e. organization_industries e = i) (df_money_filtered_of srt df r)))
        = Some (of_nat (length (filter (\<lambda>w. isin w (top_investors_no_yc srt df))
                                    (listed_investors r)))
                * (money_raised r / of_int N))"
    if "isin i (top_industries srt df)" and "count_list (listed_industries r) i = 1"
    using sum_df_money_filtered_of [OF assms(1) that(1), of r] by (simp add: that(2) share)
  have all: "sum_cells (map money_per_investor
          (filter (\<lambda>e. organization_industries e = i) (df_money_of srt df r)))
        = Some (money_raised r)"
    if "isin i (top_industries srt df)" and "count_list (listed_industries r) i = 1"
      and "length (listed_investors r) = nat N"
      and "\<forall>w\<in>set (listed_investors r). isin w (top_investors srt df)"
  proof -
    have "filter (\<lambda>w. isin w (top_investors srt df)) (listed_investors r) = listed_investors r"
      using that(4) by (intro filter_True) simp
    with sum4 [OF that(1,2)] that(3) assms(3) show ?thesis
      by simp
  qed
  show ?thesis
    using df_money_by_deal [of srt df] df_money_filtered_by_deal [of srt df]
      rows4 rows5 sum4 sum5 all
    by (intro conjI ballI impI) blast+
qed

theorem shares_credited_to_ranked_investors_witness:
  "investor_count_computed deal_B = 2
   \<and> listed_investors deal_B = [''X'', ''Y'']
   \<and> listed_industries deal_B = [''AI'']
   \<and> top_investors sort_values_stable [deal_A, deal_B] = [''X'', ''Y'']
   \<and> isin ''AI'' (top_industries sort_values_stable [deal_A, deal_B])
   \<and> with_money_per_investor (deal_B\<lparr>investor_names := ''Y''\<rparr>)
       \<in> set (df_money_of sort_values_stable [deal_A, deal_B] deal_B)
   \<and> money_per_investor (with_money_per_investor (deal_B\<lparr>investor_names := ''Y''\<rparr>)) = Some 100
   \<and> sum_cells (map money_per_investor
        (filter (\<lambda>e. organization_industries e = ''AI'')
           (df_money_of sort_values_stable [deal_A, deal_B] deal_B)))
      = Some 200"
proof -
  have n: "investor_count_computed deal_B = 2"
    by (simp add: deal_B_def)
  have m: "money_raised deal_B = 200"
    by (simp add: deal_B_def)
  have invs: "listed_investors deal_B = [''X'', ''Y'']"
    by code_simp
  have inds: "listed_industries deal_B = [''AI'']"
    by code_simp
  have ai: "isin ''AI'' (top_industries sort_values_stable [deal_A, deal_B])"
    unfolding top_industries_scenario by code_simp
  have one: "count_list (listed_industries deal_B) ''AI'' = 1"
    unfolding inds by simp
  have len: "length (listed_investors deal_B) = nat 2"
    unfolding invs by simp
  have ranked: "\<forall>w\<in>set (listed_investors deal_B).
      isin w (top_investors sort_values_stable [deal_A, deal_B])"
    unfolding invs top_investors_scenario by (simp add: isin_def)
  have exp: "df_exp [deal_B] = [deal_B\<lparr>investor_names := ''X''\<rparr>, deal_B\<lparr>investor_names := ''Y''\<rparr>]"
    by code_simp
  have row: "with_money_per_investor (deal_B\<lparr>investor_names := ''Y''\<rparr>)
      \<in> set (df_money_of sort_values_stable [deal_A, deal_B] deal_B)"
    unfolding df_money_of_def df_money_all_def exp top_investors_scenario top_industries_scenario
    by (simp add: isin_def with_money_per_investor_cols deal_B_def)
  note t = shares_credited_to_ranked_investors [OF sorts_desc_stable n, of "[deal_A, deal_B]" "''AI''"]
  from t have "\<forall>e\<in>set (df_money_of sort_values_stable [deal_A, deal_B] deal_B).
      money_per_investor e = Some 100"
    by (simp add: m)
  then have a: "money_per_investor (with_money_per_investor (deal_B\<lparr>investor_names := ''Y''\<rparr>))
      = Some 100"
    using row by (rule bspec)
  from t ai one len ranked have b: "sum_cells (map money_per_investor
        (filter (\<lambda>e. organization_industries e = ''AI'')
           (df_money_of sort_values_stable [deal_A, deal_B] deal_B)))
      = Some 200"
    by (simp only: m) simp
  from n invs inds top_investors_scenario ai row a b show ?thesis
    by (intro conjI)
qed

text \<open>
  The shares of a deal do not add up to its money when it lists an investor outside the
  top 5: of the deal of \<open>Y Combinator\<close> and \<open>E\<close>, with money 100 and investor count 2,
  analysis 4 credits 50 and analysis 5 credits nothing.  (There is no tie at the cut of
  the ranking, so every sort gives these rows.)
\<close>

theorem shares_credited_to_ranked_investors_counterexample:
  "deal_o3 \<in> set six_investors
   \<and> investor_count_computed deal_o3 = 2 \<and> money_raised deal_o3 = 100
   \<and> listed_investors deal_o3 = [''Y Combinator'', ''E'']
   \<and> listed_industries deal_o3 = [''AI'']
   \<and> sum_cells (map money_per_investor (df_money_of sort_values_stable six_investors deal_o3))
       = Some 50
   \<and> sum_cells (map money_per_investor
         (df_money_filtered_of sort_values_stable six_investors deal_o3))
       = Some 0"
  unfolding df_money_filtered_of_def df_money_of_def top_investors_no_yc_six_investors
    top_investors_six_investors top_industries_six_investors
  by code_simp

subsection \<open>An investor's total over the grouped money\<close>

lemma investor_total_groupby:
  assumes "set xs \<subseteq> set (df_money_all df)"
  shows "investor_total
           (groupby (\<lambda>r. (investor_names r, organization_industries r)) sum_money_per_investor xs) v
         = Some (sum_list (map share_of (filter (\<lambda>e. investor_names e = v) xs)))"
proof -
  let ?key = "\<lambda>r::money_round. (investor_names r, organization_industries r)"
  let ?ks = "filter (\<lambda>k. fst k = v) (group_keys ?key xs)"
  have "investor_total (groupby ?key sum_money_per_investor xs) v
      = sum_cells (map (\<lambda>k. sum_money_per_investor (filter (\<lambda>r. ?key r = k) xs)) ?ks)"
    by (simp add: investor_total_def groupby_def filter_map comp_def)
  also have "map (\<lambda>k. sum_money_per_investor (filter (\<lambda>r. ?key r = k) xs)) ?ks
      = map (\<lambda>k. Some (sum_list (map share_of (filter (\<lambda>r. ?key r = k) xs)))) ?ks"
  proof (rule map_cong [OF refl])
    fix k
    have "set (filter (\<lambda>r. ?key r = k) xs) \<subseteq> set (df_money_all df)"
      using assms by auto
    then show "sum_money_per_investor (filter (\<lambda>r. ?key r = k) xs)
        = Some (sum_list (map share_of (filter (\<lambda>r. ?key r = k) xs)))"
      unfolding sum_money_per_investor_def by (rule sum_cells_shares)
  qed
  also have "sum_cells \<dots> = Some (\<Sum>k\<leftarrow>?ks. sum_list (map share_of (filter (\<lambda>r. ?key r = k) xs)))"
    by (rule sum_cells_Some)
  also have "(\<Sum>k\<leftarrow>?ks. sum_list (map share_of (filter (\<lambda>r. ?key r = k) xs)))
      = sum_list (map share_of (filter (\<lambda>x. ?key x \<in> set ?ks) xs))"
    by (rule sum_groups) (simp add: distinct_group_keys)
  also have "filter (\<lambda>x. ?key x \<in> set ?ks) xs = filter (\<lambda>e. investor_names e = v) xs"
    by (rule filter_cong [OF refl]) (simp add: set_group_keys)
  finally show ?thesis .
qed

lemma sum_list_filter_concat:
  fixes f :: "'a \<Rightarrow> rat"
  shows "sum_list (map f (filter P (concat xss))) = (\<Sum>xs\<leftarrow>xss. sum_list (map f (filter P xs)))"
  by (induction xss) simp_all

lemma count_nonblank:
  assumes "strip v \<noteq> ''''"
  shows "length (filter (\<lambda>w. w = v \<and> strip w \<noteq> '''') ws) = count_list ws v"
proof -
  have "filter (\<lambda>w. w = v \<and> strip w \<noteq> '''') ws = filter (\<lambda>w. w = v) ws"
    using assms by (intro filter_cong refl) auto
  then show ?thesis
    by (simp only: count_list_filter)
qed

text \<open>The shares credited to a non-blank investor over the rows of \<^verbatim>\<open>df_exp\<close> whose
  industry passes a test, deal by deal.\<close>

lemma sum_shares_by_tests:
  assumes "strip v \<noteq> ''''"
  shows "sum_list (map share_of
           (filter (\<lambda>e. investor_names e = v \<and> Pind (organization_industries e)) (df_exp df)))
         = (\<Sum>r\<leftarrow>df. of_nat (length (filter Pind (listed_industries r))
                            * count_list (listed_investors r) v) * share_of r)"
proof -
  have "sum_list (map share_of
           (filter (\<lambda>e. investor_names e = v \<and> Pind (organization_industries e)) (df_exp df)))
      = (\<Sum>xs\<leftarrow>map (\<lambda>r. df_exp [r]) df. sum_list (map share_of
           (filter (\<lambda>e. investor_names e = v \<and> Pind (organization_industries e)) xs)))"
    by (subst df_exp_concat) (rule sum_list_filter_concat)
  also have "\<dots> = (\<Sum>r\<leftarrow>df. sum_list (map share_of
           (filter (\<lambda>e. investor_names e = v \<and> Pind (organization_industries e)) (df_exp [r]))))"
    by (simp add: comp_def)
  also have "\<dots> = (\<Sum>r\<leftarrow>df. of_nat (length (filter Pind (listed_industries r))
                            * count_list (listed_investors r) v) * share_of r)"
    by (simp only: sum_shares_single [where Pinv = "\<lambda>w. w = v" and Pind = Pind]
        count_nonblank [OF assms])
  finally show ?thesis .
qed

lemma filter_df_money_investor:
  assumes "v \<in> set (top_investors srt df)"
  shows "filter (\<lambda>e. investor_names e = v) (df_money srt df)
     = filter (\<lambda>e. investor_names e = v \<and> isin (organization_industries e) (top_industries srt df))
         (df_money_all df)"
  unfolding df_money_def filter_filter
  using assms by (intro filter_cong refl) (auto simp: isin_def)

lemma filter_df_money_filtered_investor:
  assumes "sorts_desc srt" and "v \<in> set (top_investors_no_yc srt df)"
  shows "filter (\<lambda>e. investor_names e = v) (df_money_filtered srt df)
     = filter (\<lambda>e. investor_names e = v) (df_money srt df)"
  unfolding df_money_filtered_def df_money_excluded_def filter_filter
  using assms(2) top_investors_no_yc_member(2) [OF assms]
  by (intro filter_cong refl) (auto simp: isin_def)

lemma sum_shares_df_money_all:
  "sum_list (map share_of (filter P (df_money_all df)))
     = sum_list (map share_of (filter (\<lambda>e. P (with_money_per_investor e)) (df_exp df)))"
  by (simp add: filter_df_money_all comp_def share_of_with)

lemma investor_total_inv_ind_money:
  assumes "sorts_desc srt" and "v \<in> set (top_investors srt df)"
  shows "investor_total (inv_ind_money srt df) v
     = Some (\<Sum>r\<leftarrow>df. of_nat (length (filter (\<lambda>i. isin i (top_industries srt df)) (listed_industries r))
                           * count_list (listed_investors r) v) * share_of r)"
proof -
  have "investor_total (inv_ind_money srt df) v
      = Some (sum_list (map share_of (filter (\<lambda>e. investor_names e = v) (df_money srt df))))"
    unfolding inv_ind_money_def
    by (rule investor_total_groupby [of _ df]) (auto dest: df_money_row(1))
  also have "sum_list (map share_of (filter (\<lambda>e. investor_names e = v) (df_money srt df)))
      = sum_list (map share_of
          (filter (\<lambda>e. investor_names e = v \<and> isin (organization_industries e) (top_industries srt df))
             (df_exp df)))"
    by (simp only: filter_df_money_investor [OF assms(2)] sum_shares_df_money_all
        with_money_per_investor_cols)
  also have "\<dots> = (\<Sum>r\<leftarrow>df. of_nat (length (filter (\<lambda>i. isin i (top_industries srt df)) (listed_industries r))
                           * count_list (listed_investors r) v) * share_of r)"
    by (rule sum_shares_by_tests [where Pind = "\<lambda>i. isin i (top_industries srt df)"])
      (rule top_investors_nonblank [OF assms])
  finally show ?thesis .
qed

lemma investor_total_inv_ind_money_no_yc:
  assumes "sorts_desc srt" and "v \<in> set (top_investors_no_yc srt df)"
  shows "investor_total (inv_ind_money_no_yc srt df) v = investor_total (inv_ind_money srt df) v"
proof -
  have "investor_total (inv_ind_money_no_yc srt df) v
      = Some (sum_list (map share_of (filter (\<lambda>e. investor_names e = v) (df_money_filtered srt df))))"
    unfolding inv_ind_money_no_yc_def
    by (rule investor_total_groupby [of _ df]) (auto dest: df_money_filtered_row)
  also have "\<dots> = Some (sum_list (map share_of (filter (\<lambda>e. investor_names e = v) (df_money srt df))))"
    by (simp only: filter_df_money_filtered_investor [OF assms])
  also have "\<dots> = investor_total (inv_ind_money srt df) v"
    unfolding inv_ind_money_def
    by (rule investor_total_groupby [of _ df, symmetric]) (auto dest: df_money_row(1))
  finally show ?thesis .
qed

lemma length_filter_distinct:
  "distinct xs \<Longrightarrow> length (filter (\<lambda>i. isin i T) xs) = card (set xs \<inter> set T)"
  by (simp add: distinct_length_filter isin_def Int_def conj_commute)

text \<open>One entry of the grouped money: the shares of the deals that list the investor and
  the industry, once for each time a deal lists both.\<close>

lemma inv_ind_money_entry:
  assumes "sorts_desc srt" and "(v, i) \<in> set (map fst (inv_ind_money srt df))"
  shows "map_of (inv_ind_money srt df) (v, i)
     = Some (Some (\<Sum>r\<leftarrow>df. of_nat (count_list (listed_industries r) i
                                  * count_list (listed_investors r) v) * share_of r))"
proof -
  let ?key = "\<lambda>r::money_round. (investor_names r, organization_industries r)"
  let ?g = "filter (\<lambda>e. ?key e = (v, i)) (df_money srt df)"
  from assms(2) have key: "(v, i) \<in> ?key ` set (df_money srt df)"
    unfolding inv_ind_money_def by (simp only: map_fst_groupby set_group_keys)
  then obtain e where e: "e \<in> set (df_money srt df)" and v: "v = investor_names e"
    and i: "i = organization_industries e"
    by auto
  from df_money_row(2) [OF e] have top_v: "v \<in> set (top_investors srt df)"
    by (simp only: v)
  from df_money_row(3) [OF e] have top_i: "i \<in> set (top_industries srt df)"
    by (simp only: i)
  have "map_of (inv_ind_money srt df) (v, i) = Some (sum_money_per_investor ?g)"
    unfolding inv_ind_money_def using key by (rule map_of_groupby)
  also have "sum_money_per_investor ?g = Some (sum_list (map share_of ?g))"
    unfolding sum_money_per_investor_def
    by (rule sum_cells_shares [of _ df]) (auto dest: df_money_row(1))
  also have "?g = filter (\<lambda>e. investor_names e = v \<and> organization_industries e = i)
      (df_money_all df)"
    unfolding df_money_def filter_filter
    using top_v top_i by (intro filter_cong refl) (auto simp: isin_def)
  also have "sum_list (map share_of \<dots>)
      = sum_list (map share_of
          (filter (\<lambda>e. investor_names e = v \<and> organization_industries e = i) (df_exp df)))"
    by (simp only: sum_shares_df_money_all with_money_per_investor_cols)
  also have "\<dots> = (\<Sum>r\<leftarrow>df. of_nat (length (filter (\<lambda>x. x = i) (listed_industries r))
                            * count_list (listed_investors r) v) * share_of r)"
    by (rule sum_shares_by_tests) (rule top_investors_nonblank [OF assms(1) top_v])
  finally show ?thesis
    by (simp only: count_list_filter)
qed

text \<open>
  C10.  In analyses 4 and 5 an entry of the grouped output, for an investor \<open>v\<close> and an
  industry \<open>i\<close>, is the sum of the shares (money over investor count) of the deals that
  list both, each deal once for every time it lists the pair.  So the total of an investor
  of the ranking, summed over the grouped output, is a sum over the deals in which each
  deal adds its share once for every industry it lists inside the top-10 set: a deal that
  lists \<open>v\<close> once and \<open>K\<close> distinct industries of the top 10 adds \<open>K\<close> times its share.
  Money is conserved per pair of investor and industry, not per investor.  This holds
  whatever the sort does with ties.
\<close>

theorem share_counted_once_per_industry:
  assumes "sorts_desc srt"
  shows "((v, i) \<in> set (map fst (inv_ind_money srt df)) \<longrightarrow>
      map_of (inv_ind_money srt df) (v, i)
        = Some (Some (\<Sum>r\<leftarrow>df. of_nat (count_list (listed_industries r) i
                                    * count_list (listed_investors r) v) * share_of r)))
   \<and> (v \<in> set (top_investors srt df) \<longrightarrow>
      investor_total (inv_ind_money srt df) v
        = Some (\<Sum>r\<leftarrow>df. of_nat (length (filter (\<lambda>i. isin i (top_industries srt df))
                                             (listed_industries r))
                              * count_list (listed_investors r) v) * share_of r))
   \<and> (v \<in> set (top_investors_no_yc srt df) \<longrightarrow>
      investor_total (inv_ind_money_no_yc srt df) v
        = Some (\<Sum>r\<leftarrow>df. of_nat (length (filter (\<lambda>i. isin i (top_industries srt df))
                                             (listed_industries r))
                              * count_list (listed_investors r) v) * share_of r))"
proof (intro conjI impI)
  assume "(v, i) \<in> set (map fst (inv_ind_money srt df))"
  with assms show "map_of (inv_ind_money srt df) (v, i)
      = Some (Some (\<Sum>r\<leftarrow>df. of_nat (count_list (listed_industries r) i
                                  * count_list (listed_investors r) v) * share_of r))"
    by (rule inv_ind_money_entry)
next
  assume "v \<in> set (top_investors srt df)"
  with assms show "investor_total (inv_ind_money srt df) v
      = Some (\<Sum>r\<leftarrow>df. of_nat (length (filter (\<lambda>i. isin i (top_industries srt df))
                                           (listed_industries r))
                            * count_list (listed_investors r) v) * share_of r)"
    by (rule investor_total_inv_ind_money)
next
  assume v: "v \<in> set (top_investors_no_yc srt df)"
  with assms
  have "investor_total (inv_ind_money_no_yc srt df) v = investor_total (inv_ind_money srt df) v"
    by (rule investor_total_inv_ind_money_no_yc)
  also have "\<dots> = Some (\<Sum>r\<leftarrow>df. of_nat (length (filter (\<lambda>i. isin i (top_industries srt df))
                                           (listed_industries r))
                            * count_list (listed_investors r) v) * share_of r)"
    using assms by (rule investor_total_inv_ind_money)
      (rule top_investors_no_yc_member(1) [OF assms v])
  finally show "investor_total (inv_ind_money_no_yc srt df) v
      = Some (\<Sum>r\<leftarrow>df. of_nat (length (filter (\<lambda>i. isin i (top_industries srt df))
                                           (listed_industries r))
                            * count_list (listed_investors r) v) * share_of r)" .
qed

lemma top_investors_no_yc_scenario:
  "top_investors_no_yc sort_values_stable [deal_A, deal_B] = [''X'', ''Y'']"
  unfolding top_investors_no_yc_def df_money_excluded_def scenario_eval by code_simp

theorem share_counted_once_per_industry_witness:
  "(''X'', ''AI'') \<in> set (map fst (inv_ind_money sort_values_stable [deal_A, deal_B]))
   \<and> map_of (inv_ind_money sort_values_stable [deal_A, deal_B]) (''X'', ''AI'') = Some (Some 200)
   \<and> ''X'' \<in> set (top_investors sort_values_stable [deal_A, deal_B])
   \<and> ''X'' \<in> set (top_investors_no_yc sort_values_stable [deal_A, deal_B])
   \<and> length (filter (\<lambda>i. isin i (top_industries sort_values_stable [deal_A, deal_B]))
                (listed_industries deal_A)) = 2
   \<and> share_of deal_A = 100
   \<and> investor_total (inv_ind_money sort_values_stable [deal_A, deal_B]) ''X'' = Some 300
   \<and> investor_total (inv_ind_money_no_yc sort_values_stable [deal_A, deal_B]) ''X'' = Some 300"
proof -
  have e: "(''X'', ''AI'') \<in> set (map fst (inv_ind_money sort_values_stable [deal_A, deal_B]))"
    unfolding inv_ind_money_def scenario_eval by code_simp
  have m: "''X'' \<in> set (top_investors sort_values_stable [deal_A, deal_B])"
    unfolding top_investors_scenario by code_simp
  have n: "''X'' \<in> set (top_investors_no_yc sort_values_stable [deal_A, deal_B])"
    unfolding top_investors_no_yc_scenario by code_simp
  have k: "length (filter (\<lambda>i. isin i (top_industries sort_values_stable [deal_A, deal_B]))
                (listed_industries deal_A)) = 2"
    unfolding top_industries_scenario by code_simp
  have s: "share_of deal_A = 100"
    by code_simp
  have u: "(\<Sum>r\<leftarrow>[deal_A, deal_B].
        of_nat (count_list (listed_industries r) ''AI'' * count_list (listed_investors r) ''X'')
          * share_of r) = 200"
    by code_simp
  have v: "(\<Sum>r\<leftarrow>[deal_A, deal_B].
        of_nat (length (filter (\<lambda>i. isin i (top_industries sort_values_stable [deal_A, deal_B]))
                          (listed_industries r))
                * count_list (listed_investors r) ''X'') * share_of r) = 300"
    unfolding top_industries_scenario by code_simp
  note t = share_counted_once_per_industry [OF sorts_desc_stable,
      of "''X''" "''AI''" "[deal_A, deal_B]"]
  from t e have c: "map_of (inv_ind_money sort_values_stable [deal_A, deal_B]) (''X'', ''AI'')
      = Some (Some 200)"
    unfolding u by (simp only: simp_thms)
  from t m have a: "investor_total (inv_ind_money sort_values_stable [deal_A, deal_B]) ''X''
      = Some 300"
    unfolding v by (simp only: simp_thms)
  from t n have b: "investor_total (inv_ind_money_no_yc sort_values_stable [deal_A, deal_B]) ''X''
      = Some 300"
    unfolding v by (simp only: simp_thms)
  from e c m n k s a b show ?thesis
    by (intro conjI)
qed

subsection \<open>The ranking of analysis 1\<close>

lemma mset_concat_map:
  "mset xs = mset ys \<Longrightarrow> mset (concat (map f xs)) = mset (concat (map f ys))"
proof -
  assume eq: "mset xs = mset ys"
  have "mset (concat (map f zs)) = (\<Sum>z\<in>#mset zs. mset (f z))" for zs
    by (induction zs) simp_all
  then show ?thesis by (simp only: eq)
qed

lemma mset_df_industry: "mset df' = mset df \<Longrightarrow> mset (df_industry df') = mset (df_industry df)"
  unfolding df_industry_def explode_col_def by (rule mset_concat_map)

lemma group_keys_mset:
  assumes "mset xs = mset ys"
  shows "group_keys key xs = group_keys key ys"
proof (rule sorted_distinct_set_unique)
  show "sorted (group_keys key xs)" "sorted (group_keys key ys)"
    by (rule sorted_group_keys)+
  show "distinct (group_keys key xs)" "distinct (group_keys key ys)"
    by (rule distinct_group_keys)+
  from assms have "set xs = set ys" by (rule mset_eq_setD)
  then show "set (group_keys key xs) = set (group_keys key ys)"
    by (simp only: set_group_keys)
qed

lemma groupby_count_mset:
  assumes "mset xs = mset ys"
  shows "groupby key count_org xs = groupby key count_org ys"
proof -
  have "count_org (filter P xs) = count_org (filter P ys)" for P
  proof -
    have "size (mset (filter P xs)) = size (mset (filter P ys))"
      by (simp only: mset_filter assms)
    then have "length (filter P xs) = length (filter P ys)"
      by (simp only: size_mset)
    then show ?thesis by (simp add: count_org_def)
  qed
  then show ?thesis
    by (simp only: groupby_def group_keys_mset [OF assms])
qed

lemma deals_by_industry_mset:
  assumes "mset df' = mset df"
  shows "deals_by_industry srt df' = deals_by_industry srt df"
proof -
  have "mset (filter (\<lambda>r. organization_industries r \<noteq> '''') (df_industry df'))
      = mset (filter (\<lambda>r. organization_industries r \<noteq> '''') (df_industry df))"
    by (simp only: mset_filter mset_df_industry [OF assms])
  then have "groupby organization_industries count_org
        (filter (\<lambda>r. organization_industries r \<noteq> []) (df_industry df'))
      = groupby organization_industries count_org
        (filter (\<lambda>r. organization_industries r \<noteq> []) (df_industry df))"
    by (rule groupby_count_mset)
  then show ?thesis
    unfolding deals_by_industry_def by (rule arg_cong)
qed

text \<open>
  C9 (as amended).  The ranking of analysis 1 is a function of the table, so that two runs
  on one table agree, and it does not even depend on the order of the table's rows: it is
  computed from the deal counts of the industries taken in ascending order of name.  It
  has at most ten entries, in descending order of count.  Which of two industries with
  equal counts comes first is left to the sort, which promises nothing on it; it is not
  decided by the order in which the table lists them.
\<close>

theorem deals_by_industry_deterministic:
  "(mset df' = mset df \<longrightarrow> deals_by_industry srt df' = deals_by_industry srt df)
   \<and> (sorts_desc srt \<longrightarrow> sorted_wrt (\<lambda>a b. snd b \<le> snd a) (deals_by_industry srt df))
   \<and> length (deals_by_industry srt df) \<le> 10"
proof (intro conjI impI)
  assume "mset df' = mset df"
  then show "deals_by_industry srt df' = deals_by_industry srt df"
    by (rule deals_by_industry_mset)
next
  assume "sorts_desc srt"
  then show "sorted_wrt (\<lambda>a b. snd b \<le> snd a) (deals_by_industry srt df)"
    unfolding deals_by_industry_def by (intro sorted_wrt_take sorts_desc_sorted)
next
  show "length (deals_by_industry srt df) \<le> 10"
    by (simp add: deals_by_industry_def)
qed

theorem deals_by_industry_deterministic_witness:
  "mset (rev software_first) = mset software_first
   \<and> deals_by_industry sort_values_stable (rev software_first)
       = deals_by_industry sort_values_stable software_first
   \<and> sorted_wrt (\<lambda>a b. snd b \<le> snd a) (deals_by_industry sort_values_stable software_first)"
proof -
  note t = deals_by_industry_deterministic
    [of "rev software_first" software_first sort_values_stable]
  have m: "mset (rev software_first) = mset software_first"
    by simp
  from t m
  have a: "deals_by_industry sort_values_stable (rev software_first)
      = deals_by_industry sort_values_stable software_first"
    by (simp only: simp_thms)
  from t sorts_desc_stable [where 'k = string and 'v = nat]
  have b: "sorted_wrt (\<lambda>a b. snd b \<le> snd a) (deals_by_industry sort_values_stable software_first)"
    by (simp only: simp_thms)
  from m a b show ?thesis
    by (intro conjI)
qed

text \<open>
  Ties are not broken in first-seen order, whatever the sort.  Take the table that lists
  \<^verbatim>\<open>Software\<close> before \<^verbatim>\<open>AI\<close>, one deal each, and the same table with its two rows
  exchanged.  The script ranks both tables alike, while first-seen order ranks
  \<^verbatim>\<open>Software\<close> first in the one and \<^verbatim>\<open>AI\<close> first in the other: no sort gives
  first-seen order on both.
\<close>

theorem deals_by_industry_deterministic_counterexample:
  "\<not> (\<exists>srt. deals_by_industry srt software_first = deals_by_industry_first_seen software_first
          \<and> deals_by_industry srt (rev software_first)
              = deals_by_industry_first_seen (rev software_first))"
proof
  assume "\<exists>srt. deals_by_industry srt software_first = deals_by_industry_first_seen software_first
          \<and> deals_by_industry srt (rev software_first)
              = deals_by_industry_first_seen (rev software_first)"
  then obtain srt
    where a: "deals_by_industry srt software_first = deals_by_industry_first_seen software_first"
      and b: "deals_by_industry srt (rev software_first)
          = deals_by_industry_first_seen (rev software_first)"
    by blast
  have "deals_by_industry srt (rev software_first) = deals_by_industry srt software_first"
    by (rule deals_by_industry_mset) simp
  with a b
  have "deals_by_industry_first_seen (rev software_first)
      = deals_by_industry_first_seen software_first"
    by (simp only:)
  moreover
  have "deals_by_industry_first_seen software_first = [(''Software'', 1), (''AI'', 1)]"
    by code_simp
  moreover
  have "deals_by_industry_first_seen (rev software_first) = [(''AI'', 1), (''Software'', 1)]"
    by code_simp
  ultimately have "[(''AI'', 1::nat), (''Software'', 1)] = [(''Software'', 1), (''AI'', 1)]"
    by (simp only:)
  then show False
    by simp
qed

subsection \<open>Rankings without a tie at the cut\<close>

lemma sorts_desc_length_filter:
  assumes "sorts_desc srt"
  shows "length (filter P (srt s)) = length (filter P s)"
proof -
  have "size (mset (filter P (srt s))) = size (mset (filter P s))"
    by (simp only: mset_filter sorts_desc_mset [OF assms])
  then show ?thesis
    by (simp only: size_mset)
qed

text \<open>An entry is inside the cut when at most \<open>n\<close> entries have at least its value.\<close>

lemma inside_cut:
  assumes "sorts_desc srt" and "x \<in> set s"
    and "length (filter (\<lambda>y. snd x \<le> snd y) s) \<le> n"
  shows "x \<in> set (take n (srt s))"
proof -
  let ?t = "srt s"
  let ?P = "\<lambda>y. snd x \<le> snd y"
  from assms(2) have "x \<in> set ?t"
    by (simp only: sorts_desc_set [OF assms(1)])
  then obtain i where i: "i < length ?t" and x: "?t ! i = x"
    by (auto simp: in_set_conv_nth)
  have sorted: "sorted_wrt (\<lambda>a b. snd b \<le> snd a) ?t"
    using assms(1) by (rule sorts_desc_sorted)
  have "?P y" if "y \<in> set (take (Suc i) ?t)" for y
  proof -
    from that obtain j where j: "j < Suc i" and y: "?t ! j = y"
      using i by (auto simp: in_set_conv_nth)
    show ?thesis
    proof (cases "j = i")
      case True
      with x y show ?thesis by simp
    next
      case False
      with j have "j < i" by simp
      with sorted i have "snd (?t ! i) \<le> snd (?t ! j)"
        by (simp add: sorted_wrt_iff_nth_less)
      with x y show ?thesis by simp
    qed
  qed
  then have "filter ?P (take (Suc i) ?t) = take (Suc i) ?t"
    by (intro filter_True) simp
  then have "length (filter ?P (take (Suc i) ?t)) = Suc i"
    using i by simp
  moreover have "length (filter ?P (take (Suc i) ?t)) \<le> length (filter ?P ?t)"
  proof -
    have "filter ?P ?t = filter ?P (take (Suc i) ?t) @ filter ?P (drop (Suc i) ?t)"
      by (simp only: filter_append [symmetric] append_take_drop_id)
    then show ?thesis by simp
  qed
  ultimately have "Suc i \<le> length (filter ?P s)"
    by (simp only: sorts_desc_length_filter [OF assms(1)])
  with assms(3) have "i < n" by simp
  with i x show ?thesis
    by (auto simp: in_set_conv_nth)
qed

text \<open>An entry is outside the cut when at least \<open>n\<close> entries have a greater value.\<close>

lemma outside_cut:
  assumes "sorts_desc srt" and "n \<le> length (filter (\<lambda>y. snd x < snd y) s)"
  shows "x \<notin> set (take n (srt s))"
proof
  let ?t = "srt s"
  let ?Q = "\<lambda>y. snd x < snd y"
  assume "x \<in> set (take n ?t)"
  then obtain i where i: "i < n" "i < length ?t" and x: "?t ! i = x"
    by (auto simp: in_set_conv_nth)
  have sorted: "sorted_wrt (\<lambda>a b. snd b \<le> snd a) ?t"
    using assms(1) by (rule sorts_desc_sorted)
  have "\<not> ?Q y" if "y \<in> set (drop i ?t)" for y
  proof -
    from that obtain j where "j < length ?t - i" and y: "?t ! (i + j) = y"
      by (auto simp: in_set_conv_nth)
    then have j: "i + j < length ?t" by simp
    show ?thesis
    proof (cases "j = 0")
      case True
      with x y show ?thesis by simp
    next
      case False
      then have "i < i + j" by simp
      with sorted j have "snd (?t ! (i + j)) \<le> snd (?t ! i)"
        by (simp add: sorted_wrt_iff_nth_less)
      with x y show ?thesis by simp
    qed
  qed
  then have "filter ?Q (drop i ?t) = []"
    by (simp add: filter_empty_conv)
  moreover have "filter ?Q ?t = filter ?Q (take i ?t) @ filter ?Q (drop i ?t)"
    by (simp only: filter_append [symmetric] append_take_drop_id)
  ultimately have "length (filter ?Q ?t) \<le> i"
    using length_filter_le [of ?Q "take i ?t"] by simp
  then have "length (filter ?Q s) \<le> i"
    by (simp only: sorts_desc_length_filter [OF assms(1)])
  with assms(2) i(1) show False by simp
qed

text \<open>
  The six-investor table has organization counts 3, 2, 2, 2, 2 and 1: the cut after five
  investors falls between 2 and 1, so every sort ranks the same five, and the tables and
  rankings derived from them are those of the stable sort.
\<close>

lemma investor_counts_six_investors:
  "groupby investor_names nunique_org (df_exp six_investors)
     = [(''A'', 2), (''B'', 2), (''C'', 2), (''D'', 2), (''E'', 1), (''Y Combinator'', 3)]"
  unfolding df_exp_six_investors by code_simp

lemma set_top_investors_six_investors:
  assumes "sorts_desc srt"
  shows "set (top_investors srt six_investors) = {''Y Combinator'', ''A'', ''B'', ''C'', ''D''}"
proof -
  let ?s = "[(''A'', 2::nat), (''B'', 2), (''C'', 2), (''D'', 2), (''E'', 1), (''Y Combinator'', 3)]"
  let ?top = "set (take 5 (srt ?s))"
  have inside: "x \<in> ?top" if "x \<in> set ?s" and "x \<noteq> (''E'', 1)" for x
  proof -
    from that have "length (filter (\<lambda>y. snd x \<le> snd y) ?s) \<le> 5"
      by auto
    with assms that(1) show ?thesis by (rule inside_cut)
  qed
  have outside: "(''E'', 1) \<notin> ?top"
    using assms by (rule outside_cut) simp
  have "?top \<subseteq> set (srt ?s)"
    by (rule set_take_subset)
  then have sub: "?top \<subseteq> set ?s"
    by (simp only: sorts_desc_set [OF assms])
  have "?top = {(''Y Combinator'', 3), (''A'', 2), (''B'', 2), (''C'', 2), (''D'', 2)}"
  proof (intro equalityI subsetI)
    fix x assume x: "x \<in> ?top"
    with sub have "x \<in> set ?s" by (rule set_mp)
    moreover from x outside have "x \<noteq> (''E'', 1)" by blast
    ultimately show "x \<in> {(''Y Combinator'', 3), (''A'', 2), (''B'', 2), (''C'', 2), (''D'', 2)}"
      by auto
  next
    fix x assume "x \<in> {(''Y Combinator'', 3), (''A'', 2::nat), (''B'', 2), (''C'', 2), (''D'', 2)}"
    then have "x \<in> set ?s" and "x \<noteq> (''E'', 1)" by auto
    then show "x \<in> ?top" by (rule inside)
  qed
  then have "fst ` ?top = {''Y Combinator'', ''A'', ''B'', ''C'', ''D''}"
    by simp
  then show ?thesis
    by (simp add: top_investors_def TOP_INVESTORS_def investor_counts_six_investors)
qed

lemma set_top_industries_six_investors:
  assumes "sorts_desc srt"
  shows "set (top_industries srt six_investors) = {''AI''}"
proof -
  have "length (group_keys organization_industries (df_exp six_investors)) \<le> TOP_INDUSTRIES"
    unfolding df_exp_six_investors by code_simp
  with assms have "set (top_industries srt six_investors)
      = organization_industries ` set (df_exp six_investors)"
    unfolding top_industries_def by (rule top_keys_all)
  also have "\<dots> = {''AI''}"
    unfolding df_exp_six_investors by (simp add: deal_of_def)
  finally show ?thesis .
qed

text \<open>The tables of analyses 4 and 5 depend on the sort only through the sets of ranked
  investors and industries.\<close>

lemma df_money_of_cong:
  assumes "set (top_investors srt df) = set (top_investors srt' df)"
    and "set (top_industries srt df) = set (top_industries srt' df)"
  shows "df_money_of srt df r = df_money_of srt' df r"
  by (simp only: df_money_of_def isin_def assms)

lemma df_money_excluded_cong:
  assumes "set (top_investors srt df) = set (top_investors srt' df)"
    and "set (top_industries srt df) = set (top_industries srt' df)"
  shows "df_money_excluded srt df = df_money_excluded srt' df"
  by (simp only: df_money_excluded_def df_money_def isin_def assms)

lemma df_money_filtered_of_cong:
  assumes "set (top_investors srt df) = set (top_investors srt' df)"
    and "set (top_industries srt df) = set (top_industries srt' df)"
    and "set (top_investors_no_yc srt df) = set (top_investors_no_yc srt' df)"
  shows "df_money_filtered_of srt df r = df_money_filtered_of srt' df r"
  by (simp only: df_money_filtered_of_def isin_def assms(3) df_money_of_cong [OF assms(1,2)])

lemma six_investors_every_sort:
  assumes "sorts_desc srt"
  shows "set (top_investors_no_yc srt six_investors) = {''A'', ''B'', ''C'', ''D''}"
    and "set (top_investors_no_yc_remainder srt six_investors) = {''A'', ''B'', ''C'', ''D'', ''E''}"
    and "df_money_of srt six_investors r = df_money_of sort_values_stable six_investors r"
    and "df_money_filtered_of srt six_investors r
         = df_money_filtered_of sort_values_stable six_investors r"
proof -
  note stable = sorts_desc_stable [where 'k = string and 'v = nat]
  have inv: "set (top_investors srt six_investors)
      = set (top_investors sort_values_stable six_investors)"
    by (simp only: set_top_investors_six_investors [OF assms]
        set_top_investors_six_investors [OF stable])
  have ind: "set (top_industries srt six_investors)
      = set (top_industries sort_values_stable six_investors)"
    by (simp only: set_top_industries_six_investors [OF assms]
        set_top_industries_six_investors [OF stable])
  have excl: "df_money_excluded srt six_investors
      = df_money_excluded sort_values_stable six_investors"
    using inv ind by (rule df_money_excluded_cong)
  have few: "length (group_keys investor_names (df_money_excluded sort_values_stable six_investors))
      \<le> TOP_INVESTORS"
    unfolding six_investors_eval by code_simp
  have "set (top_investors_no_yc srt six_investors)
      = investor_names ` set (df_money_excluded sort_values_stable six_investors)"
    unfolding top_investors_no_yc_def excl using assms few by (rule top_keys_all)
  also have "\<dots> = set (top_investors_no_yc sort_values_stable six_investors)"
    unfolding top_investors_no_yc_def using stable few by (rule top_keys_all [symmetric])
  finally have no_yc: "set (top_investors_no_yc srt six_investors)
      = set (top_investors_no_yc sort_values_stable six_investors)" .
  then show "set (top_investors_no_yc srt six_investors) = {''A'', ''B'', ''C'', ''D''}"
    by (simp add: top_investors_no_yc_six_investors)
  have few': "length (group_keys investor_names
      (filter (\<lambda>r. \<not> isin (investor_names r) EXCLUDED_INVESTORS) (df_exp six_investors)))
      \<le> TOP_INVESTORS"
    unfolding df_exp_six_investors by code_simp
  have "set (top_investors_no_yc_remainder srt six_investors)
      = investor_names ` set (filter (\<lambda>r. \<not> isin (investor_names r) EXCLUDED_INVESTORS)
          (df_exp six_investors))"
    unfolding top_investors_no_yc_remainder_def using assms few' by (rule top_keys_all)
  also have "\<dots> = {''A'', ''B'', ''C'', ''D'', ''E''}"
    unfolding df_exp_six_investors
    by (simp add: deal_of_def isin_def EXCLUDED_INVESTORS_def insert_commute)
  finally show "set (top_investors_no_yc_remainder srt six_investors)
      = {''A'', ''B'', ''C'', ''D'', ''E''}" .
  show "df_money_of srt six_investors r = df_money_of sort_values_stable six_investors r"
    using inv ind by (rule df_money_of_cong)
  show "df_money_filtered_of srt six_investors r
      = df_money_filtered_of sort_values_stable six_investors r"
    using inv ind no_yc by (rule df_money_filtered_of_cong)
qed

end
